theory Spec2Isabelle
  imports Complex_Main "HOL-Library.Product_Lexorder"
begin

section \<open>Values and errors\<close>

text \<open>
  Floating-point numbers are idealised as reals, extended by the three special values
  the source produces on purpose (\<open>jnp.inf\<close>, its negation, and \<open>jnp.nan\<close>).
  Rounding is not modelled.
\<close>

datatype xreal = Fin real | PInf | NInf | NaN

datatype error =
    AssertionError    \<comment> \<open>a failed \<open>assert\<close>\<close>
  | IndexError        \<comment> \<open>indexing a missing leaf or axis\<close>
  | ShapeError        \<comment> \<open>shapes that neither agree nor broadcast, or do not reshape\<close>
  | ValueError        \<comment> \<open>an argument out of its range (\<open>top_k\<close>, \<open>repeat\<close>)\<close>
  | NotFinite         \<comment> \<open>a float result is infinite or not-a-number; the real-valued model stops\<close>

fun xneg :: "xreal \<Rightarrow> xreal" where
  "xneg (Fin r) = Fin (- r)"
| "xneg PInf = NInf"
| "xneg NInf = PInf"
| "xneg NaN = NaN"

fun xadd :: "xreal \<Rightarrow> xreal \<Rightarrow> xreal" where
  "xadd (Fin a) (Fin b) = Fin (a + b)"
| "xadd NaN _ = NaN"
| "xadd _ NaN = NaN"
| "xadd PInf NInf = NaN"
| "xadd NInf PInf = NaN"
| "xadd PInf _ = PInf"
| "xadd _ PInf = PInf"
| "xadd NInf _ = NInf"
| "xadd _ NInf = NInf"

text \<open>Division of a float by a positive count.\<close>

fun xdiv_count :: "xreal \<Rightarrow> nat \<Rightarrow> xreal" where
  "xdiv_count (Fin a) n = Fin (a / real n)"
| "xdiv_count x n = x"

text \<open>Sequencing of fallible steps: the first error is the result.\<close>

fun bind_err :: "error + 'a \<Rightarrow> ('a \<Rightarrow> error + 'b) \<Rightarrow> error + 'b" where
  "bind_err (Inl e) f = Inl e"
| "bind_err (Inr x) f = f x"

fun mapM :: "('a \<Rightarrow> error + 'b) \<Rightarrow> 'a list \<Rightarrow> error + 'b list" where
  "mapM f [] = Inr []"
| "mapM f (x # xs) =
     (case f x of
        Inl e \<Rightarrow> Inl e
      | Inr y \<Rightarrow> (case mapM f xs of Inl e \<Rightarrow> Inl e | Inr ys \<Rightarrow> Inr (y # ys)))"

section \<open>Array primitives of the numeric library\<close>

text \<open>
  A rank-1 array is a list, a rank-2 array a list of rows. Binary elementwise
  operations broadcast an axis of length 1 against the other operand and reject
  every other mismatch.
\<close>

definition broadcast2 :: "('a \<Rightarrow> 'b \<Rightarrow> 'c) \<Rightarrow> 'a list \<Rightarrow> 'b list \<Rightarrow> error + 'c list" where
  "broadcast2 f xs ys =
     (if length xs = length ys then Inr (map2 f xs ys)
      else if length xs = 1 then Inr (map (f (hd xs)) ys)
      else if length ys = 1 then Inr (map (\<lambda>x. f x (hd ys)) xs)
      else Inl ShapeError)"

text \<open>
  \<open>jax.lax.dynamic_update_slice_in_dim(operand, update, start, axis=0)\<close>: the update
  must fit into the operand along every axis; the start index is clamped so that the
  whole update lands inside the operand; columns beyond the update's width keep the
  operand's entries.
\<close>

definition dynamic_update_slice_in_dim ::
  "real list list \<Rightarrow> real list list \<Rightarrow> nat \<Rightarrow> error + real list list" where
  "dynamic_update_slice_in_dim operand upd start =
     (if length upd > length operand then Inl ShapeError
      else
        let s = min start (length operand - length upd);
            target = take (length upd) (drop s operand)
        in if list_ex (\<lambda>(u, t). length u > length t) (zip upd target) then Inl ShapeError
           else Inr (take s operand
                     @ map2 (\<lambda>u t. u @ drop (length u) t) upd target
                     @ drop (s + length upd) operand))"

text \<open>
  \<open>jax.lax.top_k(operand, k)\<close>: the indices of the \<open>k\<close> largest entries, largest
  first, equal entries in index order. The key orders entries descending.
\<close>

fun desc_key :: "xreal \<Rightarrow> nat \<times> real" where
  "desc_key NaN = (0, 0)"
| "desc_key PInf = (1, 0)"
| "desc_key (Fin r) = (2, - r)"
| "desc_key NInf = (3, 0)"

definition top_k :: "xreal list \<Rightarrow> int \<Rightarrow> error + nat list" where
  "top_k operand k =
     (if k < 0 \<or> int (length operand) < k then Inl ValueError
      else Inr (take (nat k) (sort_key (\<lambda>i. desc_key (operand ! i)) [0..<length operand])))"

text \<open>\<open>jnp.nanmean\<close> of a vector: the mean of the entries that are not NaN.\<close>

definition nanmean :: "xreal list \<Rightarrow> xreal" where
  "nanmean xs =
     (let ys = filter (\<lambda>x. x \<noteq> NaN) xs
      in if ys = [] then NaN else xdiv_count (foldr xadd ys (Fin 0)) (length ys))"

section \<open>The novelty archive\<close>

record NoveltyArchive =
  archive :: "real list list"
  size_arch :: nat
  position :: nat

definition NoveltyArchive_init :: "nat \<Rightarrow> nat \<Rightarrow> NoveltyArchive" where
  "NoveltyArchive_init sz num_descriptors =
     \<lparr>archive = replicate sz (replicate num_descriptors 0), size_arch = sz, position = 0\<rparr>"

text \<open>
  \<open>update\<close>: one slice update at the cursor, and the cursor advances by one.
  (For \<open>size = 0\<close> the remainder is the library's; no theorem below depends on it.)
\<close>

definition NoveltyArchive_update ::
  "NoveltyArchive \<Rightarrow> real list list \<Rightarrow> error + NoveltyArchive" where
  "NoveltyArchive_update self descriptor =
     (case dynamic_update_slice_in_dim (archive self) descriptor (position self) of
        Inl e \<Rightarrow> Inl e
      | Inr new_archive \<Rightarrow>
          Inr \<lparr>archive = new_archive, size_arch = size_arch self,
               position = (position self + 1) mod size_arch self\<rparr>)"

text \<open>The inner \<open>distance\<close> function of \<open>novelty\<close>.\<close>

definition distance :: "real list \<Rightarrow> real list \<Rightarrow> error + real" where
  "distance x y =
     (case broadcast2 (\<lambda>a b. a - b) x y of
        Inl e \<Rightarrow> Inl e
      | Inr d \<Rightarrow> Inr (sqrt (sum_list (map (\<lambda>v. v * v) d))))"

text \<open>The work of \<open>novelty\<close> on one row of the distance matrix.\<close>

definition novelty_row :: "NoveltyArchive \<Rightarrow> int \<Rightarrow> real list \<Rightarrow> error + xreal" where
  "novelty_row self num_nearest_neighbors drow =
     (let indices = map (\<lambda>i. i < position self + 1) [0..<size_arch self]
      in case broadcast2 (\<lambda>m d. if m then Fin d else PInf) indices drow of
           Inl e \<Rightarrow> Inl e
         | Inr distances \<Rightarrow>
             (case top_k (map xneg distances) num_nearest_neighbors of
                Inl e \<Rightarrow> Inl e
              | Inr idx \<Rightarrow>
                  let distances' = map (\<lambda>d. if d = PInf then NaN else d) distances
                  in Inr (nanmean (map (\<lambda>i. distances' ! i) idx))))"

definition NoveltyArchive_novelty ::
  "NoveltyArchive \<Rightarrow> real list list \<Rightarrow> int \<Rightarrow> error + xreal list" where
  "NoveltyArchive_novelty self descriptors num_nearest_neighbors =
     (case mapM (\<lambda>x. mapM (\<lambda>y. distance x y) (archive self)) descriptors of
        Inl e \<Rightarrow> Inl e
      | Inr distances \<Rightarrow> mapM (novelty_row self num_nearest_neighbors) distances)"

section \<open>Genotypes\<close>

text \<open>
  A parameter leaf is an array of any rank: its shape and its entries in row-major
  order. A genotype is the list of its leaves, in the order of \<open>tree_leaves\<close>;
  \<open>tree_map\<close> is a map over that list.
\<close>

datatype ndarray = NDArray (shape: "nat list") (data: "real list")

type_synonym genotype = "ndarray list"

definition wf_array :: "ndarray \<Rightarrow> bool" where
  "wf_array x = (length (data x) = prod_list (shape x))"

text \<open>The slices of an array along its leading axis.\<close>

definition rows :: "ndarray \<Rightarrow> real list list" where
  "rows x =
     (case shape x of
        [] \<Rightarrow> []
      | m # rest \<Rightarrow>
          map (\<lambda>i. take (prod_list rest) (drop (i * prod_list rest) (data x))) [0..<m])"

definition tree_map2 ::
  "(ndarray \<Rightarrow> ndarray \<Rightarrow> error + ndarray) \<Rightarrow> genotype \<Rightarrow> genotype \<Rightarrow> error + genotype" where
  "tree_map2 f xs ys =
     (if length xs = length ys then mapM (\<lambda>(x, y). f x y) (zip xs ys) else Inl ValueError)"

text \<open>\<open>x[0]\<close>: the first slice, the leading axis dropped.\<close>

definition index0 :: "ndarray \<Rightarrow> error + ndarray" where
  "index0 x =
     (case shape x of
        [] \<Rightarrow> Inl IndexError
      | m # rest \<Rightarrow>
          if m = 0 then Inl IndexError
          else Inr (NDArray rest (take (prod_list rest) (data x))))"

text \<open>\<open>jnp.repeat(x, n, axis=0)\<close>: every slice \<open>n\<close> times in a row.\<close>

definition repeat_axis0 :: "ndarray \<Rightarrow> int \<Rightarrow> error + ndarray" where
  "repeat_axis0 x n =
     (case shape x of
        [] \<Rightarrow> Inl ShapeError
      | m # rest \<Rightarrow>
          if n < 0 then Inl ValueError
          else Inr (NDArray (m * nat n # rest)
                      (concat (map (\<lambda>r. concat (replicate (nat n) r)) (rows x)))))"

definition reshape :: "ndarray \<Rightarrow> nat list \<Rightarrow> error + ndarray" where
  "reshape x new_shape =
     (if prod_list new_shape = length (data x) then Inr (NDArray new_shape (data x))
      else Inl ShapeError)"

text \<open>\<open>jnp.reshape(x, (n, -1))\<close>: the second axis is inferred.\<close>

definition reshape_rows :: "ndarray \<Rightarrow> int \<Rightarrow> error + ndarray" where
  "reshape_rows x n =
     (if n \<le> 0 \<or> length (data x) mod nat n \<noteq> 0 then Inl ShapeError
      else Inr (NDArray [nat n, length (data x) div nat n] (data x)))"

definition neg :: "ndarray \<Rightarrow> ndarray" where
  "neg x = NDArray (shape x) (map uminus (data x))"

definition expand_dims1 :: "ndarray \<Rightarrow> error + ndarray" where
  "expand_dims1 x =
     (case shape x of
        [] \<Rightarrow> Inl ShapeError
      | m # rest \<Rightarrow> Inr (NDArray (m # 1 # rest) (data x)))"

text \<open>\<open>jnp.concatenate([x, y], axis=1)\<close>.\<close>

definition concatenate1 :: "ndarray \<Rightarrow> ndarray \<Rightarrow> error + ndarray" where
  "concatenate1 x y =
     (case (shape x, shape y) of
        (m # a # rest, m' # b # rest') \<Rightarrow>
          if m = m' \<and> rest = rest'
          then Inr (NDArray (m # (a + b) # rest) (concat (map2 (@) (rows x) (rows y))))
          else Inl ShapeError
      | _ \<Rightarrow> Inl ShapeError)"

text \<open>
  An elementwise binary operation on two leaves whose trailing axes agree; the leading
  axis broadcasts. (Leaves of different rank do not arise in this program and are
  rejected.)
\<close>

definition ewise2 :: "(real \<Rightarrow> real \<Rightarrow> real) \<Rightarrow> ndarray \<Rightarrow> ndarray \<Rightarrow> error + ndarray" where
  "ewise2 f x y =
     (case (shape x, shape y) of
        ([], []) \<Rightarrow> Inr (NDArray [] (map2 f (data x) (data y)))
      | (m # rx, n # ry) \<Rightarrow>
          if rx \<noteq> ry then Inl ShapeError
          else bind_err (broadcast2 (map2 f) (rows x) (rows y))
                 (\<lambda>rs. Inr (NDArray (length rs # rx) (concat rs)))
      | _ \<Rightarrow> Inl ShapeError)"

text \<open>The sum over the leading axis of a rank-2 array.\<close>

definition sum_axis0 :: "ndarray \<Rightarrow> real list" where
  "sum_axis0 x =
     (case shape x of
        [n, d] \<Rightarrow> map (\<lambda>j. sum_list (map (\<lambda>i. data x ! (i * d + j)) [0..<n])) [0..<d]
      | _ \<Rightarrow> [])"

text \<open>\<open>jnp.argsort(xs, axis=0)\<close>: the stable ascending sort of the indices.\<close>

definition argsort :: "('a :: linorder) list \<Rightarrow> nat list" where
  "argsort xs = sort_key (\<lambda>i. xs ! i) [0..<length xs]"

section \<open>Configuration, collaborators and emitter state\<close>

record VanillaESConfig =
  nses_emitter :: bool
  sample_number :: int
  sample_sigma :: real
  sample_mirror :: bool
  sample_rank_norm :: bool
  adam_optimizer :: bool
  learning_rate :: real
  l2_coefficient :: real
  novelty_nearest_neighbors :: int

text \<open>
  The emitter object: its configuration and construction arguments, and the
  collaborators it calls that are not part of this program: the scoring function
  (fitnesses, descriptors and the next key; its extra scores are never read and are
  left out), the optimizer (its \<open>init\<close>, \<open>update\<close> and \<open>apply_updates\<close>), and the
  random stream (\<open>split\<close>, and \<open>normal\<close>, which returns the entries drawn for a
  shape).
\<close>

record ('k, 'o) VanillaESEmitter =
  config :: VanillaESConfig
  scoring_fn :: "genotype \<Rightarrow> 'k \<Rightarrow> real list \<times> real list list \<times> 'k"
  total_generations :: nat
  num_descriptors :: nat
  optimizer_init :: "genotype \<Rightarrow> 'o"
  optimizer_update :: "genotype \<Rightarrow> 'o \<Rightarrow> genotype \<times> 'o"
  apply_updates :: "genotype \<Rightarrow> genotype \<Rightarrow> genotype"
  random_split :: "'k \<Rightarrow> 'k \<times> 'k"
  random_normal :: "'k \<Rightarrow> nat list \<Rightarrow> real list"

record ('k, 'o) VanillaESEmitterState =
  optimizer_state :: 'o
  offspring :: genotype
  generation_count :: int
  novelty_archive :: NoveltyArchive
  random_key :: 'k

section \<open>The emitter\<close>

definition VanillaESEmitter_init ::
  "('k, 'o) VanillaESEmitter \<Rightarrow> genotype \<Rightarrow> 'k \<Rightarrow> error + (('k, 'o) VanillaESEmitterState \<times> 'k)" where
  "VanillaESEmitter_init self init_genotypes key =
     (case init_genotypes of
        [] \<Rightarrow> Inl IndexError
      | x # _ \<Rightarrow>
          (case shape x of
             [] \<Rightarrow> Inl IndexError
           | b # _ \<Rightarrow>
               bind_err (if b > 1 then mapM index0 init_genotypes else Inr init_genotypes)
                 (\<lambda>g. Inr (\<lparr>optimizer_state = optimizer_init self g,
                             offspring = g,
                             generation_count = 0,
                             novelty_archive =
                               NoveltyArchive_init (total_generations self) (num_descriptors self),
                             random_key = key\<rparr>, key))))"

definition VanillaESEmitter_emit ::
  "('k, 'o) VanillaESEmitter \<Rightarrow> 'r \<Rightarrow> ('k, 'o) VanillaESEmitterState \<Rightarrow> 'k \<Rightarrow> genotype \<times> 'k" where
  "VanillaESEmitter_emit self repertoire emitter_state key = (offspring emitter_state, key)"

subsection \<open>The ES step, stage by stage\<close>

text \<open>Unit-normal noise of the shape of \<open>x\<close> repeated \<open>n\<close> times.\<close>

definition noise_like :: "('k, 'o) VanillaESEmitter \<Rightarrow> 'k \<Rightarrow> int \<Rightarrow> ndarray \<Rightarrow> error + ndarray" where
  "noise_like self subkey n x =
     bind_err (repeat_axis0 x n)
       (\<lambda>r. Inr (NDArray (shape r) (random_normal self subkey (shape r))))"

text \<open>The mirrored batch of one leaf: \<open>[+x, -x]\<close> joined on a new axis, then flattened
  into the leading axis.\<close>

definition mirror_leaf :: "ndarray \<Rightarrow> error + ndarray" where
  "mirror_leaf x =
     bind_err (expand_dims1 x) (\<lambda>a.
     bind_err (expand_dims1 (neg x)) (\<lambda>b.
     bind_err (concatenate1 a b) (\<lambda>c.
     bind_err (repeat_axis0 x 2) (\<lambda>r.
     reshape c (shape r)))))"

text \<open>Sampling: the effective sample number, \<open>sample_noise\<close> and \<open>gradient_noise\<close>.\<close>

definition sample_step ::
  "('k, 'o) VanillaESEmitter \<Rightarrow> genotype \<Rightarrow> 'k \<Rightarrow> error + (int \<times> genotype \<times> genotype)" where
  "sample_step self parent subkey =
     (let total_sample_number = sample_number (config self)
      in if sample_mirror (config self) then
           let sn = total_sample_number div 2
           in bind_err (mapM (noise_like self subkey sn) parent) (\<lambda>half_sample_noise.
              bind_err (mapM mirror_leaf half_sample_noise) (\<lambda>sample_noise.
              Inr (sn, sample_noise, half_sample_noise)))
         else
           bind_err (mapM (noise_like self subkey total_sample_number) parent) (\<lambda>sample_noise.
           Inr (total_sample_number, sample_noise, sample_noise)))"

definition apply_noise :: "VanillaESConfig \<Rightarrow> genotype \<Rightarrow> genotype \<Rightarrow> error + genotype" where
  "apply_noise cfg parent sample_noise =
     bind_err (mapM (\<lambda>x. repeat_axis0 x (sample_number cfg)) parent) (\<lambda>samples.
     tree_map2 (ewise2 (\<lambda>mean noise. mean + sample_sigma cfg * noise)) samples sample_noise)"

text \<open>
  Ranks, with or without normalisation, and the differencing of mirrored pairs.
  With \<open>sample_number = 1\<close> the normalisation divides rank 0 by 0.
\<close>

definition rank_norm :: "int \<Rightarrow> real list \<Rightarrow> error + real list" where
  "rank_norm total_sample_number scores =
     (let ranking_indices = argsort scores;
          ranks = argsort ranking_indices
      in if total_sample_number - 1 = 0 \<and> ranks \<noteq> [] then Inl NotFinite
         else Inr (map (\<lambda>r. real r / real_of_int (total_sample_number - 1) - 1 / 2) ranks))"

definition rank_step :: "VanillaESConfig \<Rightarrow> int \<Rightarrow> real list \<Rightarrow> error + real list" where
  "rank_step cfg sn scores =
     bind_err (if sample_rank_norm cfg then rank_norm (sample_number cfg) scores else Inr scores)
       (\<lambda>ranks.
          if sample_mirror cfg then
            (if sn < 0 \<or> 2 * nat sn \<noteq> length ranks then Inl ShapeError
             else Inr (map (\<lambda>i. ranks ! (2 * i) - ranks ! (2 * i + 1)) [0..<nat sn]))
          else Inr ranks)"

text \<open>The ranks repeated over the entries of a slice and shaped like the noise.\<close>

definition broadcast_ranks :: "real list \<Rightarrow> ndarray \<Rightarrow> error + ndarray" where
  "broadcast_ranks ranks x =
     bind_err (index0 x) (\<lambda>x0.
       let d = prod_list (shape x0);
           repeated = concat (map (replicate d) ranks)
       in reshape (NDArray [length repeated] repeated) (shape x))"

text \<open>The gradient of one leaf, regularisation included.\<close>

definition leaf_gradient ::
  "VanillaESConfig \<Rightarrow> int \<Rightarrow> real list \<Rightarrow> ndarray \<Rightarrow> ndarray \<Rightarrow> error + ndarray" where
  "leaf_gradient cfg sn ranks noise p =
     bind_err (broadcast_ranks ranks noise) (\<lambda>rank.
     bind_err (ewise2 (\<lambda>a b. a * b) noise rank) (\<lambda>g.
     bind_err (reshape_rows g sn) (\<lambda>g2.
     let s = sum_axis0 g2;
         denom = real_of_int (sample_number cfg) * sample_sigma cfg
     in bind_err (if denom = 0 \<and> s \<noteq> [] then Inl NotFinite
                  else reshape (NDArray [length s] (map (\<lambda>v. - v / denom) s)) (shape p)) (\<lambda>g3.
        ewise2 (\<lambda>a b. a + l2_coefficient cfg * b) g3 p))))"

definition gradient_step ::
  "VanillaESConfig \<Rightarrow> int \<Rightarrow> real list \<Rightarrow> genotype \<Rightarrow> genotype \<Rightarrow> error + genotype" where
  "gradient_step cfg sn ranks gradient_noise parent =
     tree_map2 (leaf_gradient cfg sn ranks) gradient_noise parent"

definition VanillaESEmitter_es_emitter ::
  "('k, 'o) VanillaESEmitter \<Rightarrow> genotype \<Rightarrow> 'o \<Rightarrow> 'k
     \<Rightarrow> (real list \<Rightarrow> real list list \<Rightarrow> error + real list)
     \<Rightarrow> error + (genotype \<times> 'o \<times> 'k)" where
  "VanillaESEmitter_es_emitter self parent opt_state key scores_fn =
     (case random_split self key of (key1, subkey) \<Rightarrow>
        bind_err (sample_step self parent subkey) (\<lambda>(sn, sample_noise, gradient_noise).
        bind_err (apply_noise (config self) parent sample_noise) (\<lambda>samples.
        case scoring_fn self samples key1 of (fitnesses, descriptors, key2) \<Rightarrow>
        bind_err (scores_fn fitnesses descriptors) (\<lambda>scores.
        bind_err (rank_step (config self) sn scores) (\<lambda>ranks.
        bind_err (gradient_step (config self) sn ranks gradient_noise parent) (\<lambda>gradient.
        case optimizer_update self gradient opt_state of (offspring_step, opt_state') \<Rightarrow>
        Inr (apply_updates self parent offspring_step, opt_state', key2)))))))"

text \<open>The novelty scores as reals; a NaN score ends the real-valued model.\<close>

definition finite_scores :: "xreal list \<Rightarrow> error + real list" where
  "finite_scores vs = mapM (\<lambda>v. case v of Fin r \<Rightarrow> Inr r | _ \<Rightarrow> Inl NotFinite) vs"

text \<open>The closure \<open>scores\<close> of \<open>state_update\<close>, over the updated archive.\<close>

definition scores ::
  "('k, 'o) VanillaESEmitter \<Rightarrow> NoveltyArchive \<Rightarrow> real list \<Rightarrow> real list list
     \<Rightarrow> error + real list" where
  "scores self novelty_archive' fitnesses descriptors =
     (if nses_emitter (config self)
      then bind_err (NoveltyArchive_novelty novelty_archive' descriptors
                       (novelty_nearest_neighbors (config self))) finite_scores
      else Inr fitnesses)"

text \<open>
  \<open>state_update\<close>. The \<open>assert\<close> on the batch size is its first statement (the
  InvalidBatchSize condition); reading the leading axis of a missing first leaf, or of
  a leaf of rank 0, is an IndexError before it.
\<close>

definition VanillaESEmitter_state_update ::
  "('k, 'o) VanillaESEmitter \<Rightarrow> ('k, 'o) VanillaESEmitterState \<Rightarrow> 'r \<Rightarrow> genotype
     \<Rightarrow> real list \<Rightarrow> real list list \<Rightarrow> 'x \<Rightarrow> error + ('k, 'o) VanillaESEmitterState" where
  "VanillaESEmitter_state_update self emitter_state repertoire genotypes fitnesses descriptors
       extra_scores =
     (case genotypes of
        [] \<Rightarrow> Inl IndexError
      | x # _ \<Rightarrow>
          (case shape x of
             [] \<Rightarrow> Inl IndexError
           | b # _ \<Rightarrow>
               if b \<noteq> 1 then Inl AssertionError
               else
                 bind_err (NoveltyArchive_update (novelty_archive emitter_state) descriptors)
                   (\<lambda>novelty_archive'.
                 bind_err (VanillaESEmitter_es_emitter self genotypes
                             (optimizer_state emitter_state) (random_key emitter_state)
                             (scores self novelty_archive'))
                   (\<lambda>(offspring', optimizer_state', random_key').
                      Inr (emitter_state
                            \<lparr>optimizer_state := optimizer_state',
                             offspring := offspring',
                             novelty_archive := novelty_archive',
                             generation_count := generation_count emitter_state + 1,
                             random_key := random_key'\<rparr>)))))"

section \<open>Reference notions and a concrete emitter\<close>

text \<open>The first slice of a leaf along its leading axis, that axis dropped.\<close>

definition first_slice :: "ndarray \<Rightarrow> ndarray" where
  "first_slice y = NDArray (tl (shape y)) (take (prod_list (tl (shape y))) (data y))"

text \<open>
  A small emitter on which the model is run: four mirrored samples, a scoring function
  that rewards samples near the origin, plain gradient descent, and a deterministic
  stand-in for the random stream.
\<close>

definition example_config :: VanillaESConfig where
  "example_config =
     \<lparr>nses_emitter = False, sample_number = 4, sample_sigma = 1 / 10, sample_mirror = True,
      sample_rank_norm = True, adam_optimizer = False, learning_rate = 1 / 100,
      l2_coefficient = 1 / 50, novelty_nearest_neighbors = 1\<rparr>"

definition example_emitter :: "(nat, unit) VanillaESEmitter" where
  "example_emitter =
     \<lparr>config = example_config,
      scoring_fn = (\<lambda>samples k.
         (map (\<lambda>r. - sum_list (map (\<lambda>v. v * v) r)) (rows (hd samples)),
          map (\<lambda>r. [0]) (rows (hd samples)), k)),
      total_generations = 3,
      num_descriptors = 1,
      optimizer_init = (\<lambda>g. ()),
      optimizer_update = (\<lambda>g s. (map (\<lambda>x. NDArray (shape x) (map (\<lambda>v. - v / 100) (data x))) g, s)),
      apply_updates = (\<lambda>p u. map2 (\<lambda>a b. NDArray (shape a) (map2 (+) (data a) (data b))) p u),
      random_split = (\<lambda>k. (k + 1, k + 2)),
      random_normal = (\<lambda>k sh. map real [1..<prod_list sh + 1])\<rparr>"

text \<open>A run of single-row updates, one descriptor per generation.\<close>

fun update_all :: "NoveltyArchive \<Rightarrow> real list list \<Rightarrow> error + NoveltyArchive" where
  "update_all a [] = Inr a"
| "update_all a (d # ds) = bind_err (NoveltyArchive_update a [d]) (\<lambda>a'. update_all a' ds)"

text \<open>An archive whose buffer has \<open>size\<close> rows, each of the descriptor width.\<close>

definition wf_archive :: "nat \<Rightarrow> NoveltyArchive \<Rightarrow> bool" where
  "wf_archive nd a =
     (length (archive a) = size_arch a \<and> list_all (\<lambda>row. length row = nd) (archive a))"

text \<open>The Euclidean norm of the difference of two descriptors of one width.\<close>

definition euclid :: "real list \<Rightarrow> real list \<Rightarrow> real" where
  "euclid x y = sqrt (\<Sum>(a, b) \<leftarrow> zip x y. (a - b)\<^sup>2)"

text \<open>
  The masked distances of a query: the Euclidean distance to slot \<open>i\<close> when
  \<open>i < position + 1\<close>, infinity otherwise.
\<close>

definition masked_distances :: "NoveltyArchive \<Rightarrow> real list \<Rightarrow> xreal list" where
  "masked_distances self q =
     map (\<lambda>i. if i < position self + 1 then Fin (euclid q (archive self ! i)) else PInf)
       [0..<size_arch self]"

text \<open>Ascending order of the extended reals, and the \<open>k\<close> smallest entries of a list.\<close>

fun asc_key :: "xreal \<Rightarrow> nat \<times> real" where
  "asc_key NInf = (0, 0)"
| "asc_key (Fin r) = (1, r)"
| "asc_key PInf = (2, 0)"
| "asc_key NaN = (3, 0)"

definition k_smallest :: "nat \<Rightarrow> xreal list \<Rightarrow> xreal list" where
  "k_smallest k xs = take k (sort_key asc_key xs)"

text \<open>The mean of the finite entries; not-a-number when there is none.\<close>

fun finite_values :: "xreal list \<Rightarrow> real list" where
  "finite_values [] = []"
| "finite_values (Fin r # xs) = r # finite_values xs"
| "finite_values (_ # xs) = finite_values xs"

definition mean_finite :: "xreal list \<Rightarrow> xreal" where
  "mean_finite xs =
     (let fs = finite_values xs
      in if fs = [] then NaN else Fin (sum_list fs / real (length fs)))"

text \<open>Entries that are a finite number or plus infinity.\<close>

definition no_neg_nan :: "xreal \<Rightarrow> bool" where
  "no_neg_nan x = (x \<noteq> NInf \<and> x \<noteq> NaN)"

text \<open>The mask applied to one row of the distance matrix.\<close>

definition mask_row :: "NoveltyArchive \<Rightarrow> real list \<Rightarrow> xreal list" where
  "mask_row self drow =
     map (\<lambda>i. if i < position self + 1 then Fin (drow ! i) else PInf) [0..<size_arch self]"

text \<open>
  The 0-indexed rank of entry \<open>i\<close> under the stable ascending sort: its position in
  the stably sorted order of the indices.
\<close>

definition rank_in_sorted_order :: "real list \<Rightarrow> nat \<Rightarrow> nat" where
  "rank_in_sorted_order xs i = length (takeWhile (\<lambda>j. j \<noteq> i) (argsort xs))"

text \<open>
  The interleaved antithetic batch of a leaf: every slice followed by its negation.
\<close>

definition mirrored :: "ndarray \<Rightarrow> ndarray" where
  "mirrored x =
     NDArray (2 * hd (shape x) # tl (shape x))
       (concat (concat (map (\<lambda>r. [r, map uminus r]) (rows x))))"

text \<open>
  The gradient estimate of one leaf, written out entry by entry: the noise rows
  weighted by their rank-weights and summed over the sample axis, negated, divided by
  \<open>sample_number * sample_sigma\<close>, in the shape of the parent leaf, plus
  \<open>l2_coefficient\<close> times the parent.
\<close>

definition gradient_formula :: "VanillaESConfig \<Rightarrow> real list \<Rightarrow> ndarray \<Rightarrow> ndarray \<Rightarrow> ndarray" where
  "gradient_formula cfg w noise p =
     NDArray (shape p)
       (map (\<lambda>j. - (\<Sum>i \<leftarrow> [0..<length w]. rows noise ! i ! j * w ! i)
                    / (real_of_int (sample_number cfg) * sample_sigma cfg)
                  + l2_coefficient cfg * data p ! j)
          [0..<length (data p)])"

section \<open>Properties\<close>

subsection \<open>Helper facts\<close>

lemma mapM_all_Inr: "(\<And>x. x \<in> set xs \<Longrightarrow> f x = Inr (g x)) \<Longrightarrow> mapM f xs = Inr (map g xs)"
  by (induction xs) auto

subsection \<open>emit\<close>

text \<open>
  C9. \<open>emit\<close> returns exactly the offspring held by the state together with the random
  key it was given; it returns no state, so it modifies none, and two calls on the same
  state yield the same offspring whatever the repertoire and key.
\<close>

theorem emit_returns_offspring:
  "VanillaESEmitter_emit self repertoire st key = (offspring st, key)
   \<and> fst (VanillaESEmitter_emit self repertoire st key)
       = fst (VanillaESEmitter_emit self repertoire' st key')"
  by (simp add: VanillaESEmitter_emit_def)

subsection \<open>init\<close>

text \<open>
  C10. When the first leaf of the initial genotypes has a leading axis longer than 1,
  \<open>init\<close> stores, for every leaf, its first slice with the leading axis dropped (and
  initialises the optimizer against that); when the leading axis is exactly 1 the
  genotypes are stored as they are, leading axis retained.
\<close>

theorem init_stores_first_slice_or_batch:
  assumes "init_genotypes = x # xs" and "shape x = b # sh"
  shows "(1 < b \<and> (\<forall>y \<in> set init_genotypes. \<exists>m r. shape y = m # r \<and> 0 < m) \<longrightarrow>
           VanillaESEmitter_init self init_genotypes key =
             Inr (\<lparr>optimizer_state = optimizer_init self (map first_slice init_genotypes),
                   offspring = map first_slice init_genotypes,
                   generation_count = 0,
                   novelty_archive = NoveltyArchive_init (total_generations self) (num_descriptors self),
                   random_key = key\<rparr>, key))
       \<and> (b = 1 \<longrightarrow>
           VanillaESEmitter_init self init_genotypes key =
             Inr (\<lparr>optimizer_state = optimizer_init self init_genotypes,
                   offspring = init_genotypes,
                   generation_count = 0,
                   novelty_archive = NoveltyArchive_init (total_generations self) (num_descriptors self),
                   random_key = key\<rparr>, key))"
proof (intro conjI impI)
  assume h: "1 < b \<and> (\<forall>y \<in> set init_genotypes. \<exists>m r. shape y = m # r \<and> 0 < m)"
  have "\<And>y. y \<in> set init_genotypes \<Longrightarrow> index0 y = Inr (first_slice y)"
    using h by (auto simp: index0_def first_slice_def)
  then have "mapM index0 init_genotypes = Inr (map first_slice init_genotypes)"
    by (rule mapM_all_Inr)
  then show "VanillaESEmitter_init self init_genotypes key =
             Inr (\<lparr>optimizer_state = optimizer_init self (map first_slice init_genotypes),
                   offspring = map first_slice init_genotypes,
                   generation_count = 0,
                   novelty_archive = NoveltyArchive_init (total_generations self) (num_descriptors self),
                   random_key = key\<rparr>, key)"
    using assms h by (simp add: VanillaESEmitter_init_def)
next
  assume "b = 1"
  then show "VanillaESEmitter_init self init_genotypes key =
             Inr (\<lparr>optimizer_state = optimizer_init self init_genotypes,
                   offspring = init_genotypes,
                   generation_count = 0,
                   novelty_archive = NoveltyArchive_init (total_generations self) (num_descriptors self),
                   random_key = key\<rparr>, key)"
    using assms by (simp add: VanillaESEmitter_init_def)
qed

theorem init_stores_first_slice_or_batch_witness:
  "VanillaESEmitter_init example_emitter [NDArray [2, 2] [1, 2, 3, 4], NDArray [2] [5, 6]] (0::nat) =
     Inr (\<lparr>optimizer_state = (), offspring = [NDArray [2] [1, 2], NDArray [] [5]],
           generation_count = 0,
           novelty_archive = \<lparr>archive = [[0], [0], [0]], size_arch = 3, position = 0\<rparr>,
           random_key = 0\<rparr>, 0)
   \<and> VanillaESEmitter_init example_emitter [NDArray [1, 2] [1, 2]] (0::nat) =
     Inr (\<lparr>optimizer_state = (), offspring = [NDArray [1, 2] [1, 2]],
           generation_count = 0,
           novelty_archive = \<lparr>archive = [[0], [0], [0]], size_arch = 3, position = 0\<rparr>,
           random_key = 0\<rparr>, 0)"
  using init_stores_first_slice_or_batch [of "[NDArray [2, 2] [1, 2, 3, 4], NDArray [2] [5, 6]]"
          "NDArray [2, 2] [1, 2, 3, 4]" "[NDArray [2] [5, 6]]" 2 "[2]" example_emitter 0]
        init_stores_first_slice_or_batch [of "[NDArray [1, 2] [1, 2]]"
          "NDArray [1, 2] [1, 2]" "[]" 1 "[2]" example_emitter 0]
  by (simp add: first_slice_def example_emitter_def NoveltyArchive_init_def numeral_3_eq_3)

subsection \<open>state_update\<close>

text \<open>Evaluations of the concrete emitter used below.\<close>

lemma example_scores: "scores example_emitter na = (\<lambda>f d. Inr f)"
  by (simp add: scores_def example_emitter_def example_config_def fun_eq_iff)

lemma example_es_step:
  "VanillaESEmitter_es_emitter example_emitter [NDArray [1, 2] [1, 2]] () (0::nat) (\<lambda>f d. Inr f)
     = Inr ([NDArray [1, 2] [13747 / 15000, 7061 / 3750]], (), 1)"
  by code_simp

lemma example_archive_update:
  "NoveltyArchive_update (NoveltyArchive_init 3 1) [[7]]
     = Inr \<lparr>archive = [[7], [0], [0]], size_arch = 3, position = 1\<rparr>"
  by code_simp

text \<open>
  C6. When the leading axis of the first leaf of the evaluated genotypes is not exactly
  1, \<open>state_update\<close> fails with the assertion error (the InvalidBatchSize condition) and
  returns no state; it returns a state only for batch size 1, and then it is exactly
  the archive update followed by the ES step on the updated archive.
\<close>

theorem state_update_batch_size:
  assumes "genotypes = x # xs" and "shape x = b # sh"
  shows "(b \<noteq> 1 \<longrightarrow>
            VanillaESEmitter_state_update self st repertoire genotypes fitnesses descriptors extra
              = Inl AssertionError)
       \<and> (\<forall>st'. VanillaESEmitter_state_update self st repertoire genotypes fitnesses descriptors extra
              = Inr st' \<longrightarrow> b = 1)
       \<and> (b = 1 \<longrightarrow>
            VanillaESEmitter_state_update self st repertoire genotypes fitnesses descriptors extra
              = bind_err (NoveltyArchive_update (novelty_archive st) descriptors) (\<lambda>na.
                bind_err (VanillaESEmitter_es_emitter self genotypes (optimizer_state st)
                            (random_key st) (scores self na))
                  (\<lambda>(off, os, k).
                     Inr (st\<lparr>optimizer_state := os, offspring := off, novelty_archive := na,
                              generation_count := generation_count st + 1, random_key := k\<rparr>))))"
  using assms by (simp add: VanillaESEmitter_state_update_def)

theorem state_update_batch_size_witness:
  "VanillaESEmitter_state_update example_emitter
     \<lparr>optimizer_state = (), offspring = [NDArray [1, 2] [1, 2]], generation_count = 0,
      novelty_archive = NoveltyArchive_init 3 1, random_key = (0::nat)\<rparr>
     () [NDArray [2, 2] [1, 2, 3, 4]] [0] [[7]] () = Inl AssertionError
   \<and> VanillaESEmitter_state_update example_emitter
     \<lparr>optimizer_state = (), offspring = [NDArray [1, 2] [1, 2]], generation_count = 0,
      novelty_archive = NoveltyArchive_init 3 1, random_key = (0::nat)\<rparr>
     () [NDArray [1, 2] [1, 2]] [0] [[7]] ()
     = Inr \<lparr>optimizer_state = (), offspring = [NDArray [1, 2] [13747 / 15000, 7061 / 3750]],
            generation_count = 1,
            novelty_archive = \<lparr>archive = [[7], [0], [0]], size_arch = 3, position = 1\<rparr>,
            random_key = 1\<rparr>"
proof -
  let ?st = "\<lparr>optimizer_state = (), offspring = [NDArray [1, 2] [1, 2]], generation_count = 0,
            novelty_archive = NoveltyArchive_init 3 1, random_key = (0::nat)\<rparr>"
  have rejected: "VanillaESEmitter_state_update example_emitter ?st
       () [NDArray [2, 2] [1, 2, 3, 4]] [0] [[7]] () = Inl AssertionError"
    using state_update_batch_size [of "[NDArray [2, 2] [1, 2, 3, 4]]" "NDArray [2, 2] [1, 2, 3, 4]"
          "[]" 2 "[2]" example_emitter ?st "()" "[0]" "[[7]]" "()"]
    by simp
  have "VanillaESEmitter_state_update example_emitter ?st () [NDArray [1, 2] [1, 2]] [0] [[7]] ()
      = bind_err (NoveltyArchive_update (novelty_archive ?st) [[7]]) (\<lambda>na.
        bind_err (VanillaESEmitter_es_emitter example_emitter [NDArray [1, 2] [1, 2]]
                    (optimizer_state ?st) (random_key ?st) (scores example_emitter na))
          (\<lambda>(off, os, k).
             Inr (?st\<lparr>optimizer_state := os, offspring := off, novelty_archive := na,
                      generation_count := generation_count ?st + 1, random_key := k\<rparr>)))"
    using state_update_batch_size [of "[NDArray [1, 2] [1, 2]]" "NDArray [1, 2] [1, 2]"
          "[]" 1 "[2]" example_emitter ?st "()" "[0]" "[[7]]" "()"]
    by simp
  also have "\<dots> = Inr \<lparr>optimizer_state = (), offspring = [NDArray [1, 2] [13747 / 15000, 7061 / 3750]],
            generation_count = 1,
            novelty_archive = \<lparr>archive = [[7], [0], [0]], size_arch = 3, position = 1\<rparr>,
            random_key = 1\<rparr>"
    unfolding example_scores VanillaESEmitterState.simps example_archive_update bind_err.simps
      example_es_step
    by simp
  finally show ?thesis using rejected by simp
qed

subsection \<open>The novelty archive: update\<close>

lemma map2_overwrite_full:
  "length us = length ts \<Longrightarrow> \<forall>u \<in> set us. length u = nd \<Longrightarrow> \<forall>t \<in> set ts. length t = nd \<Longrightarrow>
   map2 (\<lambda>u t. u @ drop (length u) t) us ts = us"
  by (induction us ts rule: list_induct2) auto

lemma no_wider_row:
  assumes "\<forall>u \<in> set us. length u = nd" and "\<forall>t \<in> set ts. length t = nd"
  shows "\<not> list_ex (\<lambda>(u, t). length u > length t) (zip us ts)"
proof
  assume "list_ex (\<lambda>(u, t). length u > length t) (zip us ts)"
  then obtain u t where "(u, t) \<in> set (zip us ts)" "length t < length u"
    by (auto simp: list_ex_iff)
  moreover from this(1) have "u \<in> set us" "t \<in> set ts"
    by (auto dest: set_zip_leftD set_zip_rightD)
  ultimately show False using assms by auto
qed

lemma update_block:
  assumes "wf_archive nd self"
    and "length descriptor \<le> size_arch self"
    and "\<forall>d \<in> set descriptor. length d = nd"
  shows "NoveltyArchive_update self descriptor =
           Inr \<lparr>archive = take (min (position self) (size_arch self - length descriptor)) (archive self)
                           @ descriptor
                           @ drop (min (position self) (size_arch self - length descriptor)
                                   + length descriptor) (archive self),
                size_arch = size_arch self,
                position = (position self + 1) mod size_arch self\<rparr>"
proof -
  let ?s = "min (position self) (size_arch self - length descriptor)"
  let ?target = "take (length descriptor) (drop ?s (archive self))"
  have len: "length (archive self) = size_arch self"
    and rows: "\<forall>t \<in> set (archive self). length t = nd"
    using assms(1) by (auto simp: wf_archive_def list_all_iff)
  have trows: "\<forall>t \<in> set ?target. length t = nd"
    using rows by (meson in_set_dropD in_set_takeD)
  have tlen: "length descriptor = length ?target"
    using assms(2) len by auto
  have a: "\<not> list_ex (\<lambda>(u, t). length u > length t) (zip descriptor ?target)"
    using no_wider_row [OF assms(3) trows] .
  have b: "map2 (\<lambda>u t. u @ drop (length u) t) descriptor ?target = descriptor"
    using map2_overwrite_full [OF tlen assms(3) trows] .
  show ?thesis
    using assms(2) len a b
    by (simp add: NoveltyArchive_update_def dynamic_update_slice_in_dim_def Let_def)
qed

lemma update_one_row:
  assumes "wf_archive nd a" and "position a < size_arch a" and "length d = nd"
  shows "NoveltyArchive_update a [d] =
           Inr \<lparr>archive = (archive a)[position a := d], size_arch = size_arch a,
                position = (position a + 1) mod size_arch a\<rparr>"
proof -
  have len: "length (archive a) = size_arch a"
    using assms(1) by (simp add: wf_archive_def)
  have m: "min (position a) (size_arch a - length [d]) = position a"
    using assms(2) by simp
  have "take (position a) (archive a) @ [d] @ drop (position a + length [d]) (archive a)
          = (archive a)[position a := d]"
    using assms(2) len by (simp add: upd_conv_take_nth_drop)
  then show ?thesis
    using update_block [of nd a "[d]"] assms m by simp
qed

text \<open>
  C3, as stated, fails for more than one row: two rows written at cursor 2 of a
  3-slot archive land in slots 1 and 2 (the start is clamped, nothing wraps), and the
  cursor advances by one, to 0, not by two.
\<close>

theorem update_two_rows_counterexample:
  "NoveltyArchive_update \<lparr>archive = [[0], [0], [0]], size_arch = 3, position = 2\<rparr> [[1], [2]]
     = Inr \<lparr>archive = [[0], [1], [2]], size_arch = 3, position = 0\<rparr>
   \<and> (0::nat) \<noteq> (2 + 2) mod 3"
  by code_simp

text \<open>
  C3, amended. For a well-formed archive and a descriptor of r rows of the archive's
  width, 1 \<le> r \<le> size, \<open>update\<close> never fails: it overwrites the r consecutive slots
  starting at \<open>min position (size - r)\<close> and returns the cursor
  \<open>(position + 1) mod size\<close>. For a single row and a cursor inside the buffer this is
  the write of that row at the cursor.
\<close>

theorem update_writes_block_at_clamped_cursor:
  assumes "wf_archive nd self"
    and "1 \<le> length descriptor" and "length descriptor \<le> size_arch self"
    and "\<forall>d \<in> set descriptor. length d = nd"
  shows "NoveltyArchive_update self descriptor =
           Inr \<lparr>archive = take (min (position self) (size_arch self - length descriptor)) (archive self)
                           @ descriptor
                           @ drop (min (position self) (size_arch self - length descriptor)
                                   + length descriptor) (archive self),
                size_arch = size_arch self,
                position = (position self + 1) mod size_arch self\<rparr>
       \<and> (length descriptor = 1 \<and> position self < size_arch self \<longrightarrow>
            NoveltyArchive_update self descriptor =
              Inr \<lparr>archive = (archive self)[position self := hd descriptor],
                   size_arch = size_arch self,
                   position = (position self + 1) mod size_arch self\<rparr>)"
proof (intro conjI impI)
  show "NoveltyArchive_update self descriptor =
           Inr \<lparr>archive = take (min (position self) (size_arch self - length descriptor)) (archive self)
                           @ descriptor
                           @ drop (min (position self) (size_arch self - length descriptor)
                                   + length descriptor) (archive self),
                size_arch = size_arch self,
                position = (position self + 1) mod size_arch self\<rparr>"
    using assms by (intro update_block)
next
  assume h: "length descriptor = 1 \<and> position self < size_arch self"
  then obtain d where d: "descriptor = [d]"
    by (cases descriptor) auto
  then have "length d = nd" using assms(4) by simp
  then show "NoveltyArchive_update self descriptor =
              Inr \<lparr>archive = (archive self)[position self := hd descriptor],
                   size_arch = size_arch self,
                   position = (position self + 1) mod size_arch self\<rparr>"
    using update_one_row [of nd self d] assms(1) h d by simp
qed

theorem update_writes_block_at_clamped_cursor_witness:
  "NoveltyArchive_update \<lparr>archive = [[0], [0], [0]], size_arch = 3, position = 2\<rparr> [[1], [2]]
     = Inr \<lparr>archive = [[0], [1], [2]], size_arch = 3, position = 0\<rparr>
   \<and> NoveltyArchive_update \<lparr>archive = [[0], [0], [0]], size_arch = 3, position = 2\<rparr> [[5]]
     = Inr \<lparr>archive = [[0], [0], [5]], size_arch = 3, position = 0\<rparr>"
  using update_writes_block_at_clamped_cursor
          [of 1 "\<lparr>archive = [[0], [0], [0]], size_arch = 3, position = 2\<rparr>" "[[1], [2]]"]
        update_writes_block_at_clamped_cursor
          [of 1 "\<lparr>archive = [[0], [0], [0]], size_arch = 3, position = 2\<rparr>" "[[5]]"]
  by (simp add: wf_archive_def)

lemma wf_archive_update_one:
  assumes "wf_archive nd a" and "position a < size_arch a" and "length d = nd"
  shows "wf_archive nd \<lparr>archive = (archive a)[position a := d], size_arch = size_arch a,
                          position = (position a + 1) mod size_arch a\<rparr>"
  using assms by (auto simp: wf_archive_def list_all_iff dest!: set_update_subset_insert [THEN subsetD])

lemma update_all_invariant:
  assumes "wf_archive nd a" and "position a < size_arch a"
    and "\<forall>d \<in> set ds. length d = nd"
  shows "\<exists>a'. update_all a ds = Inr a'
           \<and> size_arch a' = size_arch a
           \<and> position a' = (position a + length ds) mod size_arch a
           \<and> (\<forall>i < size_arch a.
                 (\<forall>j < length ds. (position a + j) mod size_arch a \<noteq> i) \<longrightarrow>
                 archive a' ! i = archive a ! i)
           \<and> (\<forall>j < length ds.
                 (\<forall>j' < length ds. j < j' \<longrightarrow>
                    (position a + j') mod size_arch a \<noteq> (position a + j) mod size_arch a) \<longrightarrow>
                 archive a' ! ((position a + j) mod size_arch a) = ds ! j)"
  using assms
proof (induction ds arbitrary: a)
  case Nil
  then show ?case by simp
next
  case (Cons d ds)
  let ?S = "size_arch a"
  let ?p = "position a"
  let ?a1 = "\<lparr>archive = (archive a)[?p := d], size_arch = ?S, position = (?p + 1) mod ?S\<rparr>"
  have len: "length (archive a) = ?S"
    using Cons.prems(1) by (simp add: wf_archive_def)
  have step: "NoveltyArchive_update a [d] = Inr ?a1"
    using update_one_row [of nd a d] Cons.prems by simp
  have wf1: "wf_archive nd ?a1"
    using wf_archive_update_one [of nd a d] Cons.prems by simp
  have pos1: "position ?a1 < size_arch ?a1"
    using Cons.prems(2) by simp
  from Cons.IH [OF wf1 pos1] Cons.prems(3)
  obtain a' where run: "update_all ?a1 ds = Inr a'"
    and sz: "size_arch a' = ?S"
    and pos: "position a' = ((?p + 1) mod ?S + length ds) mod ?S"
    and keep: "\<forall>i < ?S. (\<forall>j < length ds. ((?p + 1) mod ?S + j) mod ?S \<noteq> i) \<longrightarrow>
                 archive a' ! i = (archive a)[?p := d] ! i"
    and last: "\<forall>j < length ds.
                 (\<forall>j' < length ds. j < j' \<longrightarrow>
                    ((?p + 1) mod ?S + j') mod ?S \<noteq> ((?p + 1) mod ?S + j) mod ?S) \<longrightarrow>
                 archive a' ! (((?p + 1) mod ?S + j) mod ?S) = ds ! j"
    by auto
  have shift: "\<And>j. ((?p + 1) mod ?S + j) mod ?S = (?p + Suc j) mod ?S"
    by (simp add: mod_add_left_eq)
  have "update_all a (d # ds) = Inr a'"
    using step run by simp
  moreover have "position a' = (?p + length (d # ds)) mod ?S"
    using pos shift by simp
  moreover have "\<forall>i < ?S. (\<forall>j < length (d # ds). (?p + j) mod ?S \<noteq> i) \<longrightarrow>
                   archive a' ! i = archive a ! i"
  proof (intro allI impI)
    fix i assume i: "i < ?S" and free: "\<forall>j < length (d # ds). (?p + j) mod ?S \<noteq> i"
    from free have "(?p + 0) mod ?S \<noteq> i" by (metis length_greater_0_conv list.distinct(1))
    then have ne: "?p \<noteq> i" using Cons.prems(2) by simp
    have "\<forall>j < length ds. ((?p + 1) mod ?S + j) mod ?S \<noteq> i"
      using free shift by auto
    then have "archive a' ! i = (archive a)[?p := d] ! i"
      using keep i by blast
    then show "archive a' ! i = archive a ! i"
      using ne by simp
  qed
  moreover have "\<forall>j < length (d # ds).
                 (\<forall>j' < length (d # ds). j < j' \<longrightarrow> (?p + j') mod ?S \<noteq> (?p + j) mod ?S) \<longrightarrow>
                 archive a' ! ((?p + j) mod ?S) = (d # ds) ! j"
  proof (intro allI impI)
    fix j assume j: "j < length (d # ds)"
      and lastj: "\<forall>j' < length (d # ds). j < j' \<longrightarrow> (?p + j') mod ?S \<noteq> (?p + j) mod ?S"
    show "archive a' ! ((?p + j) mod ?S) = (d # ds) ! j"
    proof (cases j)
      case 0
      have "\<forall>j' < length ds. ((?p + 1) mod ?S + j') mod ?S \<noteq> ?p"
      proof (intro allI impI)
        fix j' assume "j' < length ds"
        then have "(?p + Suc j') mod ?S \<noteq> (?p + j) mod ?S"
          using lastj 0 by auto
        then show "((?p + 1) mod ?S + j') mod ?S \<noteq> ?p"
          using shift 0 Cons.prems(2) by simp
      qed
      then have "archive a' ! ?p = (archive a)[?p := d] ! ?p"
        using keep Cons.prems(2) by blast
      then show ?thesis
        using 0 Cons.prems(2) len by simp
    next
      case (Suc j0)
      then have j0: "j0 < length ds" using j by simp
      have "\<forall>j' < length ds. j0 < j' \<longrightarrow>
              ((?p + 1) mod ?S + j') mod ?S \<noteq> ((?p + 1) mod ?S + j0) mod ?S"
      proof (intro allI impI)
        fix j' assume "j' < length ds" "j0 < j'"
        then have "(?p + Suc j') mod ?S \<noteq> (?p + j) mod ?S"
          using lastj Suc by auto
        then show "((?p + 1) mod ?S + j') mod ?S \<noteq> ((?p + 1) mod ?S + j0) mod ?S"
          using shift Suc by simp
      qed
      then have "archive a' ! (((?p + 1) mod ?S + j0) mod ?S) = ds ! j0"
        using last j0 by blast
      then show ?thesis
        using shift Suc by simp
    qed
  qed
  ultimately show ?case
    using sz by blast
qed

lemma wf_archive_init: "wf_archive nd (NoveltyArchive_init S nd)"
  by (simp add: wf_archive_def NoveltyArchive_init_def list_all_iff)

text \<open>
  C7, as stated, fails at k = S: after two full laps of a 2-slot archive the cursor is
  0, not 2.
\<close>

theorem wraparound_full_lap_counterexample:
  "update_all (NoveltyArchive_init 2 1) [[1], [2], [3], [4]]
     = Inr \<lparr>archive = [[3], [4]], size_arch = 2, position = 0\<rparr>
   \<and> (0::nat) \<noteq> 2"
  by code_simp

text \<open>
  C7, amended. Writing S + k single-row descriptors (of the archive's width,
  1 \<le> k \<le> S) into a fresh archive of size S succeeds, leaves slots 0 to k - 1
  holding the last k descriptors in order, and leaves the cursor at k mod S: at k when
  k < S, at 0 when k = S.
\<close>

theorem wraparound_keeps_last_k:
  assumes "1 \<le> k" and "k \<le> S" and "length ds = S + k"
    and "\<forall>d \<in> set ds. length d = nd"
  shows "\<exists>a'. update_all (NoveltyArchive_init S nd) ds = Inr a'
           \<and> (\<forall>i < k. archive a' ! i = ds ! (S + i))
           \<and> position a' = (if k = S then 0 else k)"
proof -
  let ?a = "NoveltyArchive_init S nd"
  have S: "0 < S" using assms(1,2) by simp
  have p0: "position ?a = 0" and sz: "size_arch ?a = S"
    by (simp_all add: NoveltyArchive_init_def)
  from update_all_invariant [OF wf_archive_init, of S nd ds] assms(4) S p0 sz
  obtain a' where run: "update_all ?a ds = Inr a'"
    and pos: "position a' = length ds mod S"
    and last: "\<forall>j < length ds.
                 (\<forall>j' < length ds. j < j' \<longrightarrow> j' mod S \<noteq> j mod S) \<longrightarrow>
                 archive a' ! (j mod S) = ds ! j"
    by auto
  have "\<forall>i < k. archive a' ! i = ds ! (S + i)"
  proof (intro allI impI)
    fix i assume i: "i < k"
    have im: "(S + i) mod S = i" using i assms(2) by simp
    have "\<forall>j' < length ds. S + i < j' \<longrightarrow> j' mod S \<noteq> (S + i) mod S"
    proof (intro allI impI)
      fix j' assume j': "j' < length ds" "S + i < j'"
      then have "j' mod S = j' - S"
        using assms(2,3) by (simp add: mod_if)
      then show "j' mod S \<noteq> (S + i) mod S"
        using im j' by simp
    qed
    moreover have "S + i < length ds"
      using i assms(3) by simp
    ultimately have "archive a' ! ((S + i) mod S) = ds ! (S + i)"
      using last by blast
    then show "archive a' ! i = ds ! (S + i)"
      using im by simp
  qed
  moreover have "position a' = (if k = S then 0 else k)"
    using pos assms(2,3) by (simp add: mod_if)
  ultimately show ?thesis using run by blast
qed

theorem wraparound_keeps_last_k_witness:
  "\<exists>a'. update_all (NoveltyArchive_init 2 1) [[1], [2], [3], [4]] = Inr a'
      \<and> (\<forall>i < 2. archive a' ! i = [[1], [2], [3], [4]] ! (2 + i))
      \<and> position a' = 0"
  using wraparound_keeps_last_k [of 2 2 "[[1], [2], [3], [4]]" 1] by simp

subsection \<open>The novelty archive: novelty\<close>

lemma insort_key_map:
  "map f (insort_key (\<lambda>x. k (f x)) a xs) = insort_key k (f a) (map f xs)"
  by (induction xs) auto

lemma sort_key_map: "map f (sort_key (\<lambda>x. k (f x)) xs) = sort_key k (map f xs)"
  by (induction xs) (auto simp: insort_key_map)

lemma insort_key_same_order:
  "\<forall>y \<in> set xs. (f a \<le> f y \<longleftrightarrow> g a \<le> g y) \<Longrightarrow> insort_key f a xs = insort_key g a xs"
  by (induction xs) auto

lemma sort_key_same_order:
  "\<forall>x \<in> set xs. \<forall>y \<in> set xs. (f x \<le> f y \<longleftrightarrow> g x \<le> g y) \<Longrightarrow> sort_key f xs = sort_key g xs"
proof (induction xs)
  case Nil
  then show ?case by simp
next
  case (Cons x xs)
  then have "sort_key f xs = sort_key g xs" by simp
  moreover have "insort_key f x (sort_key g xs) = insort_key g x (sort_key g xs)"
    using Cons.prems by (intro insort_key_same_order) simp
  ultimately show ?case by simp
qed

lemma keys_agree:
  "no_neg_nan x \<Longrightarrow> no_neg_nan y \<Longrightarrow>
   (desc_key (xneg x) \<le> desc_key (xneg y) \<longleftrightarrow> asc_key x \<le> asc_key y)"
  by (cases x; cases y) (auto simp: no_neg_nan_def)

lemma foldr_xadd_Fin:
  "foldr xadd (map Fin rs) (Fin 0) = Fin (sum_list rs)"
  by (induction rs) auto

lemma filter_to_nan:
  "\<forall>x \<in> set xs. no_neg_nan x \<Longrightarrow>
   filter (\<lambda>x. x \<noteq> NaN) (map (\<lambda>d. if d = PInf then NaN else d) xs) = map Fin (finite_values xs)"
proof (induction xs)
  case Nil
  then show ?case by simp
next
  case (Cons x xs)
  then show ?case by (cases x) (auto simp: no_neg_nan_def)
qed

lemma nanmean_to_nan:
  assumes "\<forall>x \<in> set xs. no_neg_nan x"
  shows "nanmean (map (\<lambda>d. if d = PInf then NaN else d) xs) = mean_finite xs"
  using filter_to_nan [OF assms]
  by (simp add: nanmean_def mean_finite_def Let_def foldr_xadd_Fin)

lemma xneg_xneg: "xneg (xneg x) = x"
  by (cases x) auto

lemma selected_values:
  assumes "\<forall>x \<in> set ds. no_neg_nan x"
  shows "map (\<lambda>i. map g ds ! i)
           (take k (sort_key (\<lambda>i. desc_key (map xneg ds ! i)) [0..<length ds]))
         = map g (take k (sort_key asc_key ds))"
proof -
  let ?idx = "sort_key (\<lambda>i. desc_key (map xneg ds ! i)) [0..<length ds]"
  have "map (\<lambda>i. map xneg ds ! i) ?idx = sort_key desc_key (map (\<lambda>i. map xneg ds ! i) [0..<length ds])"
    by (rule sort_key_map)
  also have "map (\<lambda>i. map xneg ds ! i) [0..<length ds] = map xneg ds"
    using map_nth [of "map xneg ds"] by simp
  also have "sort_key desc_key (map xneg ds) = map xneg (sort_key (\<lambda>x. desc_key (xneg x)) ds)"
    by (rule sort_key_map [symmetric])
  also have "sort_key (\<lambda>x. desc_key (xneg x)) ds = sort_key asc_key ds"
    using assms by (intro sort_key_same_order) (simp add: keys_agree)
  finally have sorted: "map (\<lambda>i. map xneg ds ! i) ?idx = map xneg (sort_key asc_key ds)" .
  have "map (\<lambda>i. map g ds ! i) ?idx = map (\<lambda>i. g (xneg (map xneg ds ! i))) ?idx"
    by (rule map_cong) (auto simp: xneg_xneg)
  also have "\<dots> = map (\<lambda>x. g (xneg x)) (map (\<lambda>i. map xneg ds ! i) ?idx)"
    by simp
  also have "\<dots> = map g (sort_key asc_key ds)"
    unfolding sorted by (simp add: xneg_xneg)
  finally have "take k (map (\<lambda>i. map g ds ! i) ?idx) = take k (map g (sort_key asc_key ds))"
    by simp
  then show ?thesis
    by (simp only: take_map)
qed

lemma mask_row_no_neg_nan: "\<forall>x \<in> set (mask_row self drow). no_neg_nan x"
  by (auto simp: mask_row_def no_neg_nan_def)

lemma novelty_row_eq:
  assumes "length drow = size_arch self" and "0 \<le> k" and "k \<le> int (size_arch self)"
  shows "novelty_row self k drow = Inr (mean_finite (k_smallest (nat k) (mask_row self drow)))"
proof -
  let ?ind = "map (\<lambda>i. i < position self + 1) [0..<size_arch self]"
  let ?ds = "mask_row self drow"
  have masked: "broadcast2 (\<lambda>m d. if m then Fin d else PInf) ?ind drow = Inr ?ds"
    using assms(1) by (auto simp: broadcast2_def mask_row_def intro!: nth_equalityI)
  have len: "length ?ds = size_arch self"
    by (simp add: mask_row_def)
  have topk: "top_k (map xneg ?ds) k
                = Inr (take (nat k) (sort_key (\<lambda>i. desc_key (map xneg ?ds ! i)) [0..<length ?ds]))"
    using assms(2,3) len by (simp add: top_k_def)
  have sel: "map (\<lambda>i. map (\<lambda>d. if d = PInf then NaN else d) ?ds ! i)
               (take (nat k) (sort_key (\<lambda>i. desc_key (map xneg ?ds ! i)) [0..<length ?ds]))
             = map (\<lambda>d. if d = PInf then NaN else d) (take (nat k) (sort_key asc_key ?ds))"
    using mask_row_no_neg_nan by (rule selected_values)
  have "\<forall>x \<in> set (take (nat k) (sort_key asc_key ?ds)). no_neg_nan x"
    using mask_row_no_neg_nan [of self drow] by (auto dest: in_set_takeD)
  then have "nanmean (map (\<lambda>d. if d = PInf then NaN else d) (take (nat k) (sort_key asc_key ?ds)))
               = mean_finite (take (nat k) (sort_key asc_key ?ds))"
    by (rule nanmean_to_nan)
  then show ?thesis
    unfolding novelty_row_def Let_def masked sum.case topk sel k_smallest_def by simp
qed

lemma sum_squares_zip:
  "length (x :: real list) = length y \<Longrightarrow>
   sum_list (map (\<lambda>v. v * v) (map2 (\<lambda>a b. a - b) x y)) = (\<Sum>(a, b) \<leftarrow> zip x y. (a - b)\<^sup>2)"
proof (induction x y rule: list_induct2)
  case Nil
  then show ?case by simp
next
  case (Cons a xs b ys)
  have "(a - b) * (a - b) = (a - b)\<^sup>2"
    by (simp add: power2_eq_square)
  then show ?case using Cons by simp
qed

lemma distance_eq:
  assumes "length x = length y"
  shows "distance x y = Inr (euclid x y)"
proof -
  have "distance x y = Inr (sqrt (sum_list (map (\<lambda>v. v * v) (map2 (\<lambda>a b. a - b) x y))))"
    using assms by (simp add: distance_def broadcast2_def)
  then show ?thesis
    unfolding sum_squares_zip [OF assms] euclid_def .
qed

lemma mask_row_distances:
  "length (archive self) = size_arch self \<Longrightarrow>
   mask_row self (map (euclid q) (archive self)) = masked_distances self q"
  by (simp add: mask_row_def masked_distances_def)

lemma novelty_eq:
  assumes "wf_archive nd self"
    and "\<forall>q \<in> set descriptors. length q = nd"
    and "0 \<le> k" and "k \<le> int (size_arch self)"
  shows "NoveltyArchive_novelty self descriptors k =
           Inr (map (\<lambda>q. mean_finite (k_smallest (nat k) (masked_distances self q))) descriptors)"
proof -
  have len: "length (archive self) = size_arch self"
    and rows: "\<forall>t \<in> set (archive self). length t = nd"
    using assms(1) by (auto simp: wf_archive_def list_all_iff)
  have inner: "mapM (\<lambda>y. distance q y) (archive self) = Inr (map (euclid q) (archive self))"
    if "q \<in> set descriptors" for q
    using that assms(2) rows by (intro mapM_all_Inr distance_eq) simp
  have dist: "mapM (\<lambda>x. mapM (\<lambda>y. distance x y) (archive self)) descriptors
                = Inr (map (\<lambda>q. map (euclid q) (archive self)) descriptors)"
    using inner by (rule mapM_all_Inr)
  have row: "novelty_row self k drow
               = Inr (mean_finite (k_smallest (nat k) (mask_row self drow)))"
    if "drow \<in> set (map (\<lambda>q. map (euclid q) (archive self)) descriptors)" for drow
    using that len assms(3,4) by (intro novelty_row_eq) auto
  have "mapM (novelty_row self k) (map (\<lambda>q. map (euclid q) (archive self)) descriptors)
          = Inr (map (\<lambda>drow. mean_finite (k_smallest (nat k) (mask_row self drow)))
                   (map (\<lambda>q. map (euclid q) (archive self)) descriptors))"
    using row by (rule mapM_all_Inr)
  then show ?thesis
    using dist len by (simp add: NoveltyArchive_novelty_def mask_row_distances comp_def)
qed

lemma euclid_zero:
  "length q = nd \<Longrightarrow> euclid q (replicate nd 0) = sqrt (\<Sum>v \<leftarrow> q. v\<^sup>2)"
proof -
  assume "length q = nd"
  then have "map (\<lambda>(a, b). (a - b)\<^sup>2) (zip q (replicate nd (0::real))) = map (\<lambda>v. v\<^sup>2) q"
    by (auto intro!: nth_equalityI)
  then show ?thesis by (simp add: euclid_def)
qed

lemma masked_distances_init:
  "0 < S \<Longrightarrow> masked_distances (NoveltyArchive_init S nd) q
     = Fin (euclid q (replicate nd 0)) # replicate (S - 1) PInf"
  by (auto simp: masked_distances_def NoveltyArchive_init_def intro!: nth_equalityI
           simp: nth_Cons split: nat.splits)

lemma k_smallest_single_finite:
  assumes "0 < k"
  shows "mean_finite (k_smallest k (Fin d # replicate n PInf)) = Fin d"
proof -
  have "sorted (map asc_key (Fin d # replicate n PInf))"
    by (auto simp: less_eq_prod_def)
  then have "sort_key asc_key (Fin d # replicate n PInf) = Fin d # replicate n PInf"
    by (rule sort_key_id_if_sorted)
  moreover obtain k' where "k = Suc k'"
    using assms by (cases k) auto
  moreover have "finite_values (replicate m PInf) = []" for m
    by (induction m) auto
  ultimately show ?thesis
    by (simp add: k_smallest_def mean_finite_def)
qed

lemma sqrt_25: "sqrt 25 = 5"
proof -
  have "sqrt 25 = sqrt (5\<^sup>2)" by simp
  also have "\<dots> = 5" by (simp only: real_sqrt_abs)
  finally show ?thesis .
qed

text \<open>
  C2. For a well-formed archive, query descriptors of the archive's width and
  0 \<le> k \<le> size, \<open>novelty\<close> returns, for each query, the mean of the finite values
  among its k smallest masked distances, where the distance to slot i is the Euclidean
  norm of the difference when i < position + 1 and infinity otherwise; the infinite
  selections are excluded from the mean.
\<close>

theorem novelty_is_mean_of_k_nearest_finite:
  assumes "wf_archive nd self"
    and "\<forall>q \<in> set descriptors. length q = nd"
    and "0 \<le> k" and "k \<le> int (size_arch self)"
  shows "NoveltyArchive_novelty self descriptors k =
           Inr (map (\<lambda>q. mean_finite (k_smallest (nat k) (masked_distances self q))) descriptors)"
  using assms by (rule novelty_eq)

theorem novelty_is_mean_of_k_nearest_finite_witness:
  "NoveltyArchive_novelty \<lparr>archive = [[0, 0], [3, 4], [6, 8]], size_arch = 3, position = 1\<rparr>
     [[0, 0], [3, 4]] 3 = Inr [Fin (5 / 2), Fin (5 / 2)]"
  using novelty_is_mean_of_k_nearest_finite
          [of 2 "\<lparr>archive = [[0, 0], [3, 4], [6, 8]], size_arch = 3, position = 1\<rparr>"
              "[[0, 0], [3, 4]]" 3]
  by (simp add: wf_archive_def masked_distances_def euclid_def k_smallest_def mean_finite_def
        upt_rec numeral_3_eq_3 sqrt_25)

text \<open>
  C8. Against a freshly initialised archive, the novelty of every query descriptor is
  its Euclidean distance to the zero vector, for every k with 1 \<le> k \<le> size: only
  slot 0 passes the mask, and the mean is over that one finite distance.
\<close>

theorem novelty_bootstrap:
  assumes "1 \<le> k" and "k \<le> int S"
    and "\<forall>q \<in> set descriptors. length q = nd"
  shows "NoveltyArchive_novelty (NoveltyArchive_init S nd) descriptors k =
           Inr (map (\<lambda>q. Fin (sqrt (\<Sum>v \<leftarrow> q. v\<^sup>2))) descriptors)"
proof -
  have S: "0 < S" using assms(1,2) by simp
  have "NoveltyArchive_novelty (NoveltyArchive_init S nd) descriptors k =
          Inr (map (\<lambda>q. mean_finite (k_smallest (nat k)
                 (masked_distances (NoveltyArchive_init S nd) q))) descriptors)"
    using novelty_eq [OF wf_archive_init [of nd S], of descriptors k] assms
    by (simp add: NoveltyArchive_init_def)
  moreover have "mean_finite (k_smallest (nat k) (masked_distances (NoveltyArchive_init S nd) q))
                   = Fin (sqrt (\<Sum>v \<leftarrow> q. v\<^sup>2))"
    if "q \<in> set descriptors" for q
    using that assms(1,3) S
    by (simp add: masked_distances_init k_smallest_single_finite euclid_zero)
  ultimately show ?thesis by simp
qed

theorem novelty_bootstrap_witness:
  "NoveltyArchive_novelty (NoveltyArchive_init 3 2) [[3, 4]] 2 = Inr [Fin 5]"
  using novelty_bootstrap [of 2 3 "[[3, 4]]" 2] by (simp add: sqrt_25)

subsection \<open>Rank normalisation\<close>

lemma argsort_perm:
  "length (argsort xs) = length xs" "distinct (argsort xs)" "set (argsort xs) = {..<length xs}"
  by (auto simp: argsort_def)

lemma sort_key_index_tiebreak:
  fixes f :: "nat \<Rightarrow> 'a :: linorder"
  assumes "sorted js" and "distinct js"
  shows "sort_key f js = sort_key (\<lambda>i. (f i, i)) js"
  using assms
proof (induction js)
  case Nil
  then show ?case by simp
next
  case (Cons a js)
  then have IH: "sort_key f js = sort_key (\<lambda>i. (f i, i)) js" by simp
  have later: "\<forall>y \<in> set js. a < y"
    using Cons.prems by (auto simp: le_less)
  have "insort_key f a (sort_key (\<lambda>i. (f i, i)) js)
          = insort_key (\<lambda>i. (f i, i)) a (sort_key (\<lambda>i. (f i, i)) js)"
    using later by (intro insort_key_same_order) (auto simp: less_eq_prod_def)
  then show ?case using IH by simp
qed

lemma argsort_tiebreak: "argsort xs = sort_key (\<lambda>i. (xs ! i, i)) [0..<length xs]"
  unfolding argsort_def by (rule sort_key_index_tiebreak) simp_all

lemma argsort_inverse:
  assumes "distinct p" and "set p = {..<length p}" and "r < length p"
  shows "p ! (argsort p ! r) = r"
proof -
  have "map (\<lambda>i. p ! i) (argsort p) = sort_key (\<lambda>x. x) (map (\<lambda>i. p ! i) [0..<length p])"
    unfolding argsort_def by (rule sort_key_map)
  also have "map (\<lambda>i. p ! i) [0..<length p] = p"
    by (rule map_nth)
  also have "sort_key (\<lambda>x. x) p = [0..<length p]"
    using assms(1,2) by (intro sorted_distinct_set_unique) (auto simp: atLeast0LessThan)
  finally have "map (\<lambda>i. p ! i) (argsort p) ! r = [0..<length p] ! r" by simp
  then show ?thesis
    using assms(3) by (simp add: argsort_perm)
qed

lemma position_in_distinct:
  assumes "distinct p" and "q < length p"
  shows "length (takeWhile (\<lambda>j. j \<noteq> p ! q) p) = q"
proof -
  have "takeWhile (\<lambda>j. j \<noteq> p ! q) p = take q p"
    using assms by (intro takeWhile_eq_take_P_nth) (auto simp: nth_eq_iff_index_eq)
  then show ?thesis using assms(2) by simp
qed

lemma ranks_bound:
  assumes "i < length xs"
  shows "argsort (argsort xs) ! i < length xs"
  using nth_mem [of i "argsort (argsort xs)"] assms by (simp add: argsort_perm)

lemma ranks_invert:
  assumes "i < length xs"
  shows "argsort xs ! (argsort (argsort xs) ! i) = i"
  using argsort_inverse [of "argsort xs" i] assms by (simp add: argsort_perm)

lemma ranks_position:
  assumes "i < length xs"
  shows "argsort (argsort xs) ! i = rank_in_sorted_order xs i"
proof -
  let ?q = "argsort (argsort xs) ! i"
  have "length (takeWhile (\<lambda>j. j \<noteq> argsort xs ! ?q) (argsort xs)) = ?q"
    using ranks_bound [OF assms] by (intro position_in_distinct) (simp_all add: argsort_perm)
  then show ?thesis
    using ranks_invert [OF assms] by (simp add: rank_in_sorted_order_def)
qed

lemma ranks_order:
  fixes xs :: "real list"
  assumes "i < length xs" and "j < length xs" and "(xs ! j, j) < (xs ! i, i)"
  shows "argsort (argsort xs) ! j < argsort (argsort xs) ! i"
proof (rule ccontr)
  let ?p = "argsort (argsort xs) ! i" and ?q = "argsort (argsort xs) ! j"
  assume "\<not> ?q < ?p"
  then have le: "?p \<le> ?q" by simp
  have srt: "sorted (map (\<lambda>i. (xs ! i, i)) (argsort xs))"
    unfolding argsort_tiebreak by (rule sorted_sort_key)
  have qlen: "?q < length (map (\<lambda>i. (xs ! i, i)) (argsort xs))"
    using ranks_bound [OF assms(2)] by (simp add: argsort_perm)
  have "map (\<lambda>i. (xs ! i, i)) (argsort xs) ! ?p \<le> map (\<lambda>i. (xs ! i, i)) (argsort xs) ! ?q"
    using srt le qlen by (rule sorted_nth_mono)
  then have "(xs ! i, i) \<le> (xs ! j, j)"
    using ranks_bound [OF assms(1)] ranks_bound [OF assms(2)]
      ranks_invert [OF assms(1)] ranks_invert [OF assms(2)]
    by (simp add: argsort_perm)
  then show False using assms(3) leD by blast
qed

text \<open>
  C5. With rank normalisation (the branch \<open>rank_norm\<close> of the ES step), each of the
  N scores, N \<ge> 2, is replaced by its 0-indexed rank under the stable ascending sort,
  rescaled as rank / (N - 1) - 1/2. Every rank-weight lies in [-1/2, 1/2]; a larger
  score has a strictly larger rank-weight; among equal scores the earlier sample has
  the smaller one.
\<close>

theorem rank_norm_centered_ranks:
  assumes "int (length sc) = N" and "2 \<le> N"
  shows "\<exists>ws. rank_norm N sc = Inr ws \<and> length ws = length sc
           \<and> (\<forall>i < length sc.
                 ws ! i = real (rank_in_sorted_order sc i) / real_of_int (N - 1) - 1 / 2)
           \<and> (\<forall>i < length sc. - (1 / 2) \<le> ws ! i \<and> ws ! i \<le> 1 / 2)
           \<and> (\<forall>i < length sc. \<forall>j < length sc.
                 sc ! j < sc ! i \<longrightarrow> ws ! j < ws ! i)
           \<and> (\<forall>i < length sc. \<forall>j < length sc.
                 sc ! j = sc ! i \<and> j < i \<longrightarrow> ws ! j < ws ! i)"
proof -
  let ?ranks = "argsort (argsort sc)"
  let ?ws = "map (\<lambda>r. real r / real_of_int (N - 1) - 1 / 2) ?ranks"
  have n: "length ?ranks = length sc"
    by (simp add: argsort_perm)
  have pos: "0 < real_of_int (N - 1)"
    using assms(2) by simp
  have run: "rank_norm N sc = Inr ?ws"
    using assms(2) by (simp add: rank_norm_def Let_def)
  have val: "?ws ! i = real (?ranks ! i) / real_of_int (N - 1) - 1 / 2" if "i < length sc" for i
    using that n by simp
  have a: "?ws ! i = real (rank_in_sorted_order sc i) / real_of_int (N - 1) - 1 / 2"
    if "i < length sc" for i
    using val [OF that] ranks_position [OF that] by simp
  have b: "- (1 / 2) \<le> ?ws ! i \<and> ?ws ! i \<le> 1 / 2" if "i < length sc" for i
  proof -
    have "int (?ranks ! i) \<le> N - 1"
      using ranks_bound [OF that] assms(1) by simp
    then have "real (?ranks ! i) \<le> real_of_int (N - 1)"
      by (metis of_int_le_iff of_int_of_nat_eq)
    then have "real (?ranks ! i) / real_of_int (N - 1) \<le> 1"
      using pos by (simp add: divide_le_eq)
    moreover have "0 \<le> real (?ranks ! i) / real_of_int (N - 1)"
      using pos by simp
    ultimately show ?thesis
      unfolding val [OF that] by linarith
  qed
  have mono: "?ws ! j < ?ws ! i"
    if "i < length sc" "j < length sc" "(sc ! j, j) < (sc ! i, i)" for i j
  proof -
    have "real (?ranks ! j) < real (?ranks ! i)"
      using ranks_order [OF that] by simp
    then have "real (?ranks ! j) / real_of_int (N - 1) < real (?ranks ! i) / real_of_int (N - 1)"
      using pos by (simp add: divide_strict_right_mono)
    then show ?thesis
      unfolding val [OF that(1)] val [OF that(2)] by linarith
  qed
  have c: "\<forall>i < length sc. \<forall>j < length sc. sc ! j < sc ! i \<longrightarrow> ?ws ! j < ?ws ! i"
    using mono by (simp add: less_prod_def)
  have d: "\<forall>i < length sc. \<forall>j < length sc.
             sc ! j = sc ! i \<and> j < i \<longrightarrow> ?ws ! j < ?ws ! i"
    using mono by (simp add: less_prod_def)
  show ?thesis
    using run n a b c d by (intro exI [of _ ?ws]) simp
qed

theorem rank_norm_centered_ranks_witness:
  "\<exists>ws. rank_norm 4 [3, 1, 2, 2] = Inr ws \<and> length ws = length [3, 1, 2, 2 :: real]
     \<and> (\<forall>i < length [3, 1, 2, 2 :: real].
           ws ! i = real (rank_in_sorted_order [3, 1, 2, 2] i) / real_of_int (4 - 1) - 1 / 2)
     \<and> (\<forall>i < length [3, 1, 2, 2 :: real]. - (1 / 2) \<le> ws ! i \<and> ws ! i \<le> 1 / 2)
     \<and> (\<forall>i < length [3, 1, 2, 2 :: real]. \<forall>j < length [3, 1, 2, 2 :: real].
           [3, 1, 2, 2 :: real] ! j < [3, 1, 2, 2] ! i \<longrightarrow> ws ! j < ws ! i)
     \<and> (\<forall>i < length [3, 1, 2, 2 :: real]. \<forall>j < length [3, 1, 2, 2 :: real].
           [3, 1, 2, 2 :: real] ! j = [3, 1, 2, 2] ! i \<and> j < i \<longrightarrow> ws ! j < ws ! i)"
  using rank_norm_centered_ranks [of "[3, 1, 2, 2]" 4] by simp

lemma example_rank_norm: "rank_norm 4 [3, 1, 2, 2] = Inr [1 / 2, - (1 / 2), - (1 / 6), 1 / 6]"
  by code_simp

subsection \<open>Mirrored sampling\<close>

lemma length_concat_uniform:
  "\<forall>r \<in> set rs. length r = d \<Longrightarrow> length (concat rs) = length rs * d"
  by (induction rs) auto

lemma chunk_of_concat:
  "\<forall>r \<in> set rs. length r = d \<Longrightarrow> i < length rs \<Longrightarrow>
   take d (drop (i * d) (concat rs)) = rs ! i"
proof (induction rs arbitrary: i)
  case Nil
  then show ?case by simp
next
  case (Cons r rs)
  show ?case
  proof (cases i)
    case 0
    then show ?thesis using Cons.prems by simp
  next
    case (Suc i')
    then have "drop (i * d) (r @ concat rs) = drop (i' * d) (concat rs)"
      using Cons.prems by simp
    then show ?thesis
      using Cons Suc by simp
  qed
qed

lemma rows_of_concat:
  assumes "\<forall>r \<in> set rs. length r = prod_list ps"
  shows "rows (NDArray (length rs # ps) (concat rs)) = rs"
  using assms by (auto simp: rows_def chunk_of_concat intro!: nth_equalityI)

lemma rows_length: "shape x = m # ps \<Longrightarrow> length (rows x) = m"
  by (simp add: rows_def)

lemma rows_uniform:
  assumes "wf_array x" and "shape x = m # ps"
  shows "\<forall>r \<in> set (rows x). length r = prod_list ps"
proof
  fix r assume "r \<in> set (rows x)"
  then obtain i where i: "i < m" and r: "r = take (prod_list ps) (drop (i * prod_list ps) (data x))"
    using assms(2) by (auto simp: rows_def)
  have "length (data x) = m * prod_list ps"
    using assms by (simp add: wf_array_def)
  moreover have "i * prod_list ps + prod_list ps \<le> m * prod_list ps"
    using i by (metis Suc_leI mult_Suc mult_le_mono1 add.commute)
  ultimately show "length r = prod_list ps"
    using r by simp
qed

lemma interleave_concat:
  "concat (map (\<lambda>r. r @ f r) xs) = concat (concat (map (\<lambda>r. [r, f r]) xs))"
  by (induction xs) auto

lemma interleave_nth:
  "i < length xs \<Longrightarrow>
   concat (map (\<lambda>r. [r, f r]) xs) ! (2 * i) = xs ! i
   \<and> concat (map (\<lambda>r. [r, f r]) xs) ! (2 * i + 1) = f (xs ! i)"
proof (induction xs arbitrary: i)
  case Nil
  then show ?case by simp
next
  case (Cons x xs)
  then show ?case by (cases i) auto
qed

lemma interleave_length: "length (concat (map (\<lambda>r. [r, f r]) xs)) = 2 * length xs"
  by (induction xs) auto

lemma noise_like_eq:
  assumes "shape x = m # ps" and "0 \<le> n"
  shows "noise_like self subkey n x =
           Inr (NDArray (m * nat n # ps) (random_normal self subkey (m * nat n # ps)))"
  using assms by (simp add: noise_like_def repeat_axis0_def)

lemma mirror_leaf_eq:
  assumes "wf_array x" and "shape x = m # ps"
  shows "mirror_leaf x =
           Inr (NDArray (length (concat (map (\<lambda>r. [r, map uminus r]) (rows x))) # ps)
                  (concat (concat (map (\<lambda>r. [r, map uminus r]) (rows x)))))"
proof -
  let ?a = "NDArray (m # 1 # ps) (data x)"
  let ?b = "NDArray (m # 1 # ps) (map uminus (data x))"
  let ?c = "NDArray (m # 2 # ps) (concat (map (\<lambda>r. r @ map uminus r) (rows x)))"
  have a: "expand_dims1 x = Inr ?a"
    using assms(2) by (simp add: expand_dims1_def)
  have b: "expand_dims1 (neg x) = Inr ?b"
    using assms(2) by (simp add: expand_dims1_def neg_def)
  have ra: "rows ?a = rows x"
    using assms(2) by (simp add: rows_def)
  have rb: "rows ?b = map (map uminus) (rows x)"
    using assms(2) by (simp add: rows_def take_map drop_map)
  have "map2 (@) (rows x) (map (map uminus) (rows x)) = map (\<lambda>r. r @ map uminus r) (rows x)"
    by (simp add: zip_map2 map_zip_map2 zip_same_conv_map)
  then have c: "concatenate1 ?a ?b = Inr ?c"
    using ra rb by (simp add: concatenate1_def)
  have r: "repeat_axis0 x 2 =
             Inr (NDArray (m * 2 # ps) (concat (map (\<lambda>r. concat (replicate 2 r)) (rows x))))"
    using assms(2) by (simp add: repeat_axis0_def)
  have uni: "\<forall>r \<in> set (map (\<lambda>r. r @ map uminus r) (rows x)). length r = 2 * prod_list ps"
    using rows_uniform [OF assms] by simp
  have "length (concat (map (\<lambda>r. r @ map uminus r) (rows x))) = m * (2 * prod_list ps)"
    using length_concat_uniform [OF uni] rows_length [OF assms(2)] by simp
  then have "reshape ?c (m * 2 # ps) = Inr (NDArray (m * 2 # ps) (data ?c))"
    by (simp add: reshape_def)
  then show ?thesis
    unfolding mirror_leaf_def a b c r bind_err.simps ndarray.sel
    using rows_length [OF assms(2)]
    by (simp add: interleave_concat interleave_length mult.commute)
qed

lemma mirror_leaf_rows:
  assumes "wf_array x" and "shape x = m # ps"
  shows "mirror_leaf x = Inr (mirrored x)"
    and "shape (mirrored x) = 2 * m # ps"
    and "rows (mirrored x) = concat (map (\<lambda>r. [r, map uminus r]) (rows x))"
proof -
  let ?rs = "concat (map (\<lambda>r. [r, map uminus r]) (rows x))"
  have len: "length ?rs = 2 * m"
    using rows_length [OF assms(2)] by (simp add: interleave_length)
  then have eq: "mirrored x = NDArray (length ?rs # ps) (concat ?rs)"
    using assms(2) by (simp add: mirrored_def)
  show "mirror_leaf x = Inr (mirrored x)"
    unfolding eq by (rule mirror_leaf_eq [OF assms])
  show "shape (mirrored x) = 2 * m # ps"
    using assms(2) by (simp add: mirrored_def)
  have "\<forall>r \<in> set ?rs. length r = prod_list ps"
    using rows_uniform [OF assms] by auto
  then show "rows (mirrored x) = ?rs"
    unfolding eq by (rule rows_of_concat)
qed

text \<open>
  C4. With mirrored sampling and an even, non-negative sample number N, for every
  parent whose leaves have a leading axis and for the key the noise is drawn with
  (\<open>normal\<close> returning as many entries as the shape asks for), sampling succeeds; for
  every leaf and every pair index i, perturbation row 2i is row i of the drawn half
  and row 2i + 1 is its exact negation; \<open>gradient_noise\<close> is the drawn half alone,
  with N/2 rows per parent slice (N/2 rows for batch size 1), against N rows of
  \<open>sample_noise\<close>.
\<close>

theorem mirrored_noise_antithetic:
  assumes "sample_mirror (config self)"
    and "even (sample_number (config self))" and "0 \<le> sample_number (config self)"
    and "\<forall>x \<in> set parent. shape x \<noteq> []"
    and "\<forall>sh. length (random_normal self subkey sh) = prod_list sh"
  shows "\<exists>sample_noise gradient_noise.
           sample_step self parent subkey
             = Inr (sample_number (config self) div 2, sample_noise, gradient_noise)
         \<and> length sample_noise = length parent \<and> length gradient_noise = length parent
         \<and> (\<forall>l < length parent.
               shape (gradient_noise ! l)
                 = hd (shape (parent ! l)) * nat (sample_number (config self) div 2)
                   # tl (shape (parent ! l))
             \<and> data (gradient_noise ! l)
                 = random_normal self subkey (shape (gradient_noise ! l))
             \<and> shape (sample_noise ! l)
                 = hd (shape (parent ! l)) * nat (sample_number (config self))
                   # tl (shape (parent ! l))
             \<and> (\<forall>i < hd (shape (parent ! l)) * nat (sample_number (config self) div 2).
                   rows (sample_noise ! l) ! (2 * i) = rows (gradient_noise ! l) ! i
                 \<and> rows (sample_noise ! l) ! (2 * i + 1)
                     = map uminus (rows (sample_noise ! l) ! (2 * i))))"
proof -
  let ?N = "sample_number (config self)"
  define h where "h = (\<lambda>x. NDArray (hd (shape x) * nat (?N div 2) # tl (shape x))
                 (random_normal self subkey (hd (shape x) * nat (?N div 2) # tl (shape x))))"
  define half where "half = map h parent"
  have half_pos: "0 \<le> ?N div 2" using assms(3) by simp
  have twice: "2 * nat (?N div 2) = nat ?N"
    using assms(2,3) by (auto elim!: evenE)
  have "noise_like self subkey (?N div 2) x = Inr (h x)" if xin: "x \<in> set parent" for x
  proof -
    obtain m ps where "shape x = m # ps"
      using xin assms(4) by (cases "shape x") auto
    then show ?thesis using noise_like_eq [OF _ half_pos] by (simp add: h_def)
  qed
  then have run_half: "mapM (noise_like self subkey (?N div 2)) parent = Inr half"
    unfolding half_def by (rule mapM_all_Inr)
  have wf_h: "wf_array (h x)" for x
    using assms(5) by (simp add: wf_array_def h_def)
  have sh_h: "shape (h x) = hd (shape x) * nat (?N div 2) # tl (shape x)" for x
    by (simp add: h_def)
  have "mirror_leaf y = Inr (mirrored y)" if yin: "y \<in> set half" for y
  proof -
    obtain x where "y = h x" using yin by (auto simp: half_def)
    then show ?thesis using mirror_leaf_rows(1) [OF wf_h sh_h] by simp
  qed
  then have run_mirror: "mapM mirror_leaf half = Inr (map mirrored half)"
    by (rule mapM_all_Inr)
  have run: "sample_step self parent subkey = Inr (?N div 2, map mirrored half, half)"
    unfolding sample_step_def Let_def using assms(1) run_half run_mirror by simp
  have leaf: "shape (half ! l) = hd (shape (parent ! l)) * nat (?N div 2) # tl (shape (parent ! l))
             \<and> data (half ! l) = random_normal self subkey (shape (half ! l))
             \<and> shape (map mirrored half ! l)
                 = hd (shape (parent ! l)) * nat ?N # tl (shape (parent ! l))
             \<and> (\<forall>i < hd (shape (parent ! l)) * nat (?N div 2).
                   rows (map mirrored half ! l) ! (2 * i) = rows (half ! l) ! i
                 \<and> rows (map mirrored half ! l) ! (2 * i + 1)
                     = map uminus (rows (map mirrored half ! l) ! (2 * i)))"
    if l: "l < length parent" for l
  proof -
    define x where "x = parent ! l"
    have hl: "half ! l = h x" and ml: "map mirrored half ! l = mirrored (h x)"
      using l by (simp_all add: half_def x_def)
    have sh: "shape (mirrored (h x)) = 2 * (hd (shape x) * nat (?N div 2)) # tl (shape x)"
      and rw: "rows (mirrored (h x)) = concat (map (\<lambda>r. [r, map uminus r]) (rows (h x)))"
      using mirror_leaf_rows(2,3) [OF wf_h sh_h] by auto
    have "2 * (hd (shape x) * nat (?N div 2)) = hd (shape x) * nat ?N"
      using twice by (metis mult.left_commute)
    then have sh': "shape (mirrored (h x)) = hd (shape x) * nat ?N # tl (shape x)"
      using sh by simp
    have len: "length (rows (h x)) = hd (shape x) * nat (?N div 2)"
      using rows_length [OF sh_h] .
    have pairs: "\<forall>i < hd (shape x) * nat (?N div 2).
            rows (mirrored (h x)) ! (2 * i) = rows (h x) ! i
          \<and> rows (mirrored (h x)) ! (2 * i + 1) = map uminus (rows (mirrored (h x)) ! (2 * i))"
      unfolding rw using interleave_nth [of _ "rows (h x)" "map uminus"] len by simp
    have "data (h x) = random_normal self subkey (shape (h x))"
      by (simp add: h_def)
    then show ?thesis
      unfolding hl ml using sh_h [of x] sh' pairs by (simp add: x_def)
  qed
  have "length (map mirrored half) = length parent" "length half = length parent"
    by (simp_all add: half_def)
  then show ?thesis
    using run leaf by blast
qed

lemma example_sample_step:
  "sample_step example_emitter [NDArray [1, 2] [1, 2]] (2::nat)
     = Inr (2, [NDArray [4, 2] [1, 2, - 1, - 2, 3, 4, - 3, - 4]], [NDArray [2, 2] [1, 2, 3, 4]])"
  by code_simp

theorem mirrored_noise_antithetic_witness:
  "\<exists>sample_noise gradient_noise.
     sample_step example_emitter [NDArray [1, 2] [1, 2]] (2::nat)
       = Inr (2, sample_noise, gradient_noise)
     \<and> shape (gradient_noise ! 0) = [2, 2] \<and> shape (sample_noise ! 0) = [4, 2]
     \<and> rows (sample_noise ! 0) ! 2 = rows (gradient_noise ! 0) ! 1
     \<and> rows (sample_noise ! 0) ! 3 = map uminus (rows (sample_noise ! 0) ! 2)"
proof -
  have a: "sample_mirror (config example_emitter)"
    and b: "even (sample_number (config example_emitter))"
    and c: "0 \<le> sample_number (config example_emitter)"
    and d: "\<forall>x \<in> set [NDArray [1, 2] [1, 2]]. shape x \<noteq> []"
    and e: "\<forall>sh. length (random_normal example_emitter (2::nat) sh) = prod_list sh"
    by (simp_all add: example_emitter_def example_config_def)
  have n: "sample_number (config example_emitter) = 4"
    by (simp add: example_emitter_def example_config_def)
  from mirrored_noise_antithetic [OF a b c d e]
  obtain sample_noise gradient_noise where
    run: "sample_step example_emitter [NDArray [1, 2] [1, 2]] 2
            = Inr (sample_number (config example_emitter) div 2, sample_noise, gradient_noise)"
    and leaf: "\<forall>l < length [NDArray [1, 2] [1, 2]].
               shape (gradient_noise ! l)
                 = hd (shape ([NDArray [1, 2] [1, 2]] ! l))
                     * nat (sample_number (config example_emitter) div 2)
                   # tl (shape ([NDArray [1, 2] [1, 2]] ! l))
             \<and> data (gradient_noise ! l)
                 = random_normal example_emitter 2 (shape (gradient_noise ! l))
             \<and> shape (sample_noise ! l)
                 = hd (shape ([NDArray [1, 2] [1, 2]] ! l))
                     * nat (sample_number (config example_emitter))
                   # tl (shape ([NDArray [1, 2] [1, 2]] ! l))
             \<and> (\<forall>i < hd (shape ([NDArray [1, 2] [1, 2]] ! l))
                        * nat (sample_number (config example_emitter) div 2).
                   rows (sample_noise ! l) ! (2 * i) = rows (gradient_noise ! l) ! i
                 \<and> rows (sample_noise ! l) ! (2 * i + 1)
                     = map uminus (rows (sample_noise ! l) ! (2 * i)))"
    by blast
  from leaf have l0: "shape (gradient_noise ! 0) = [2, 2] \<and> shape (sample_noise ! 0) = [4, 2]
      \<and> (\<forall>i < 2. rows (sample_noise ! 0) ! (2 * i) = rows (gradient_noise ! 0) ! i
             \<and> rows (sample_noise ! 0) ! (2 * i + 1) = map uminus (rows (sample_noise ! 0) ! (2 * i)))"
    unfolding n by simp
  then have "rows (sample_noise ! 0) ! (2 * 1) = rows (gradient_noise ! 0) ! 1
      \<and> rows (sample_noise ! 0) ! (2 * 1 + 1) = map uminus (rows (sample_noise ! 0) ! (2 * 1))"
    by (metis one_less_numeral_iff semiring_norm(76))
  then show ?thesis
    using run l0 unfolding n by (intro exI [of _ sample_noise] exI [of _ gradient_noise]) simp
qed

subsection \<open>The gradient estimate\<close>

lemma nth_concat_uniform:
  assumes "\<forall>r \<in> set rs. length r = d" and "i < length rs" and "j < d"
  shows "concat rs ! (i * d + j) = rs ! i ! j"
proof -
  have "rs ! i ! j = take d (drop (i * d) (concat rs)) ! j"
    using chunk_of_concat [OF assms(1,2)] by simp
  also have "\<dots> = drop (i * d) (concat rs) ! j"
    using assms(3) by simp
  also have "\<dots> = concat rs ! (i * d + j)"
  proof -
    have "length (concat rs) = length rs * d"
      using assms(1) by (rule length_concat_uniform)
    moreover have "i * d \<le> length rs * d"
      using assms(2) by simp
    ultimately show ?thesis by simp
  qed
  finally show ?thesis by simp
qed

lemma broadcast_ranks_eq:
  assumes "shape noise = m # ps" and "0 < m" and "length ranks = m"
  shows "broadcast_ranks ranks noise
           = Inr (NDArray (m # ps) (concat (map (replicate (prod_list ps)) ranks)))"
proof -
  have "length (concat (map (replicate (prod_list ps)) ranks)) = m * prod_list ps"
    using length_concat_uniform [of "map (replicate (prod_list ps)) ranks" "prod_list ps"]
      assms(3) by simp
  then show ?thesis
    using assms(1,2) by (simp add: broadcast_ranks_def index0_def reshape_def Let_def)
qed

lemma weighted_rows:
  assumes "wf_array noise" and "shape noise = m # ps" and "length ranks = m"
  shows "ewise2 (\<lambda>a b. a * b) noise (NDArray (m # ps) (concat (map (replicate (prod_list ps)) ranks)))
           = Inr (NDArray (m # ps)
                    (concat (map (\<lambda>i. map (\<lambda>v. v * ranks ! i) (rows noise ! i)) [0..<m])))"
proof -
  let ?rk = "NDArray (m # ps) (concat (map (replicate (prod_list ps)) ranks))"
  have "rows (NDArray (length (map (replicate (prod_list ps)) ranks) # ps)
               (concat (map (replicate (prod_list ps)) ranks)))
          = map (replicate (prod_list ps)) ranks"
    by (rule rows_of_concat) simp
  then have rk: "rows ?rk = map (replicate (prod_list ps)) ranks"
    using assms(3) by simp
  have uni: "\<forall>r \<in> set (rows noise). length r = prod_list ps"
    using rows_uniform [OF assms(1,2)] .
  have len: "length (rows noise) = m"
    using rows_length [OF assms(2)] .
  have "map2 (map2 (\<lambda>a b. a * b)) (rows noise) (map (replicate (prod_list ps)) ranks)
          = map (\<lambda>i. map (\<lambda>v. v * ranks ! i) (rows noise ! i)) [0..<m]"
  proof (rule nth_equalityI)
    show "length (map2 (map2 (\<lambda>a b. a * b)) (rows noise) (map (replicate (prod_list ps)) ranks))
            = length (map (\<lambda>i. map (\<lambda>v. v * ranks ! i) (rows noise ! i)) [0..<m])"
      using len assms(3) by simp
  next
    fix i assume "i < length (map2 (map2 (\<lambda>a b. a * b)) (rows noise)
                                (map (replicate (prod_list ps)) ranks))"
    then have i: "i < m" using len assms(3) by simp
    then have "length (rows noise ! i) = prod_list ps"
      using uni len by simp
    then have "map2 (\<lambda>a b. a * b) (rows noise ! i) (replicate (prod_list ps) (ranks ! i))
                 = map (\<lambda>v. v * ranks ! i) (rows noise ! i)"
      by (auto intro!: nth_equalityI)
    then show "map2 (map2 (\<lambda>a b. a * b)) (rows noise) (map (replicate (prod_list ps)) ranks) ! i
                 = map (\<lambda>i. map (\<lambda>v. v * ranks ! i) (rows noise ! i)) [0..<m] ! i"
      using i len assms(3) by simp
  qed
  then show ?thesis
    using assms(2,3) rk len by (simp add: ewise2_def broadcast2_def)
qed

lemma sum_weighted_rows:
  assumes "wf_array noise" and "shape noise = m # ps" and "0 < m"
  shows "sum_axis0 (NDArray [m, prod_list ps]
           (concat (map (\<lambda>i. map (\<lambda>v. v * ranks ! i) (rows noise ! i)) [0..<m])))
         = map (\<lambda>j. \<Sum>i \<leftarrow> [0..<m]. rows noise ! i ! j * ranks ! i) [0..<prod_list ps]"
proof -
  let ?rs = "map (\<lambda>i. map (\<lambda>v. v * ranks ! i) (rows noise ! i)) [0..<m]"
  have uni: "\<forall>r \<in> set ?rs. length r = prod_list ps"
    using rows_uniform [OF assms(1,2)] rows_length [OF assms(2)] by auto
  have "concat ?rs ! (i * prod_list ps + j) = rows noise ! i ! j * ranks ! i"
    if "i < m" "j < prod_list ps" for i j
  proof -
    have "concat ?rs ! (i * prod_list ps + j) = ?rs ! i ! j"
      using uni that by (intro nth_concat_uniform) simp_all
    also have "\<dots> = rows noise ! i ! j * ranks ! i"
      using that rows_uniform [OF assms(1,2)] rows_length [OF assms(2)] by simp
    finally show ?thesis .
  qed
  note elem = this
  have inner: "map (\<lambda>i. concat ?rs ! (i * prod_list ps + j)) [0..<m]
               = map (\<lambda>i. rows noise ! i ! j * ranks ! i) [0..<m]"
    if "j < prod_list ps" for j
    by (rule map_cong [OF refl]) (simp add: elem that)
  have "map (\<lambda>j. sum_list (map (\<lambda>i. concat ?rs ! (i * prod_list ps + j)) [0..<m]))
            [0..<prod_list ps]
          = map (\<lambda>j. \<Sum>i \<leftarrow> [0..<m]. rows noise ! i ! j * ranks ! i) [0..<prod_list ps]"
    by (rule map_cong [OF refl]) (simp add: inner)
  then show ?thesis
    by (simp add: sum_axis0_def)
qed

lemma leaf_gradient_eq:
  assumes "wf_array noise" and "wf_array p"
    and "shape p = 1 # ps" and "shape noise = nat sn # ps"
    and "0 < sn" and "length ranks = nat sn"
    and "real_of_int (sample_number cfg) * sample_sigma cfg \<noteq> 0"
  shows "leaf_gradient cfg sn ranks noise p = Inr (gradient_formula cfg ranks noise p)"
proof -
  let ?m = "nat sn" and ?D = "prod_list ps"
  let ?gd = "concat (map (\<lambda>i. map (\<lambda>v. v * ranks ! i) (rows noise ! i)) [0..<?m])"
  let ?s = "map (\<lambda>j. \<Sum>i \<leftarrow> [0..<?m]. rows noise ! i ! j * ranks ! i) [0..<?D]"
  let ?denom = "real_of_int (sample_number cfg) * sample_sigma cfg"
  let ?g3 = "NDArray (1 # ps) (map (\<lambda>v. - v / ?denom) ?s)"
  have m: "0 < ?m" using assms(5) by simp
  have rk: "broadcast_ranks ranks noise
              = Inr (NDArray (?m # ps) (concat (map (replicate ?D) ranks)))"
    using broadcast_ranks_eq [OF assms(4) m assms(6)] .
  have g: "ewise2 (\<lambda>a b. a * b) noise (NDArray (?m # ps) (concat (map (replicate ?D) ranks)))
             = Inr (NDArray (?m # ps) ?gd)"
    using weighted_rows [OF assms(1,4,6)] .
  have "\<forall>r \<in> set (map (\<lambda>i. map (\<lambda>v. v * ranks ! i) (rows noise ! i)) [0..<?m]). length r = ?D"
    using rows_uniform [OF assms(1,4)] rows_length [OF assms(4)] by auto
  then have "length ?gd = ?m * ?D"
    using length_concat_uniform [of "map (\<lambda>i. map (\<lambda>v. v * ranks ! i) (rows noise ! i)) [0..<?m]" ?D]
    by simp
  then have g2: "reshape_rows (NDArray (?m # ps) ?gd) sn = Inr (NDArray [?m, ?D] ?gd)"
    using assms(5) by (simp add: reshape_rows_def)
  have s: "sum_axis0 (NDArray [?m, ?D] ?gd) = ?s"
    using sum_weighted_rows [OF assms(1,4) m] .
  have g3: "reshape (NDArray [length ?s] (map (\<lambda>v. - v / ?denom) ?s)) (shape p) = Inr ?g3"
    using assms(3) by (simp add: reshape_def)
  have pd: "length (data p) = ?D"
    using assms(2,3) by (simp add: wf_array_def)
  have "ewise2 (\<lambda>a b. a + l2_coefficient cfg * b) ?g3 p
          = Inr (NDArray (1 # ps)
                   (map2 (\<lambda>a b. a + l2_coefficient cfg * b) (map (\<lambda>v. - v / ?denom) ?s) (data p)))"
    using assms(3) pd by (simp add: ewise2_def broadcast2_def rows_def)
  moreover have "map2 (\<lambda>a b. a + l2_coefficient cfg * b) (map (\<lambda>v. - v / ?denom) ?s) (data p)
                   = data (gradient_formula cfg ranks noise p)"
    using pd assms(6) by (auto simp: gradient_formula_def intro!: nth_equalityI)
  ultimately have last: "ewise2 (\<lambda>a b. a + l2_coefficient cfg * b) ?g3 p
                           = Inr (gradient_formula cfg ranks noise p)"
    using assms(3) by (simp add: gradient_formula_def)
  show ?thesis
    unfolding leaf_gradient_def rk bind_err.simps g g2 Let_def s
    using assms(7) g3 last by simp
qed

text \<open>
  C1. For every parent whose leaves have batch size 1, with gradient noise of
  \<open>sn\<close> rows per leaf (\<open>sn\<close> = N/2 under mirroring, N otherwise, positive) and one
  rank-weight per row, the gradient step succeeds and yields, per leaf: the noise rows
  multiplied elementwise by their broadcast rank-weights, summed over the sample axis,
  negated, divided by \<open>sample_number * sample_sigma\<close> (the full sample number, also
  under mirroring), in the parent leaf's shape, plus \<open>l2_coefficient * parent\<close>.
\<close>

theorem gradient_estimate:
  assumes "sn = (if sample_mirror cfg then sample_number cfg div 2 else sample_number cfg)"
    and "0 < sn" and "sample_sigma cfg \<noteq> 0"
    and "length ranks = nat sn" and "length gradient_noise = length parent"
    and "\<forall>l < length parent.
           wf_array (parent ! l) \<and> wf_array (gradient_noise ! l)
           \<and> (\<exists>ps. shape (parent ! l) = 1 # ps \<and> shape (gradient_noise ! l) = nat sn # ps)"
  shows "gradient_step cfg sn ranks gradient_noise parent
           = Inr (map2 (gradient_formula cfg ranks) gradient_noise parent)"
proof -
  have "sample_number cfg \<noteq> 0"
    using assms(1,2) by (auto split: if_splits)
  then have denom: "real_of_int (sample_number cfg) * sample_sigma cfg \<noteq> 0"
    using assms(3) by simp
  have "(case xy of (x, y) \<Rightarrow> leaf_gradient cfg sn ranks x y)
          = Inr (case xy of (x, y) \<Rightarrow> gradient_formula cfg ranks x y)"
    if xy: "xy \<in> set (zip gradient_noise parent)" for xy
  proof -
    obtain l where l: "l < length parent" and eq: "xy = (gradient_noise ! l, parent ! l)"
      using xy assms(5) by (auto simp: in_set_zip)
    obtain ps where "wf_array (parent ! l)" "wf_array (gradient_noise ! l)"
      "shape (parent ! l) = 1 # ps" "shape (gradient_noise ! l) = nat sn # ps"
      using assms(6) l by blast
    then have "leaf_gradient cfg sn ranks (gradient_noise ! l) (parent ! l)
                 = Inr (gradient_formula cfg ranks (gradient_noise ! l) (parent ! l))"
      using assms(2,4) denom by (intro leaf_gradient_eq)
    then show ?thesis using eq by simp
  qed
  then have "mapM (\<lambda>(x, y). leaf_gradient cfg sn ranks x y) (zip gradient_noise parent)
               = Inr (map (\<lambda>(x, y). gradient_formula cfg ranks x y) (zip gradient_noise parent))"
    by (rule mapM_all_Inr)
  then show ?thesis
    using assms(5) by (simp add: gradient_step_def tree_map2_def)
qed

lemma example_gradient_formula:
  "map2 (gradient_formula example_config [1 / 3, 2 / 3])
     [NDArray [2, 2] [1, 2, 3, 4]] [NDArray [1, 2] [1, 2]]
   = [NDArray [1, 2] [- (436 / 75), - (622 / 75)]]"
  by code_simp

theorem gradient_estimate_witness:
  "gradient_step example_config 2 [1 / 3, 2 / 3] [NDArray [2, 2] [1, 2, 3, 4]] [NDArray [1, 2] [1, 2]]
     = Inr [NDArray [1, 2] [- (436 / 75), - (622 / 75)]]"
proof -
  have "gradient_step example_config 2 [1 / 3, 2 / 3]
          [NDArray [2, 2] [1, 2, 3, 4]] [NDArray [1, 2] [1, 2]]
        = Inr (map2 (gradient_formula example_config [1 / 3, 2 / 3])
                 [NDArray [2, 2] [1, 2, 3, 4]] [NDArray [1, 2] [1, 2]])"
    by (rule gradient_estimate) (simp_all add: example_config_def wf_array_def)
  then show ?thesis
    unfolding example_gradient_formula .
qed

end
